theory Spec2Isabelle
  imports Main "HOL-Library.Word"
begin

unbundle bit_operations_syntax

section \<open>Machine types and text rendering\<close>

text \<open>
  The program is Win32 code; the model takes the 64-bit build, so \<open>size_t\<close> and
  \<open>ULONG_PTR\<close> are 64-bit words and \<open>DWORD\<close>, \<open>uint32_t\<close> are 32-bit words.
  Byte buffers (vectors of \<open>std::byte\<close>) are lists of 8-bit words.
\<close>

type_synonym byte = "8 word"
type_synonym DWORD = "32 word"
type_synonym size_t = "64 word"
type_synonym ULONG_PTR = "64 word"

text \<open>\<open>std::format("{}", n)\<close> for an unsigned and for a signed integer: decimal digits.\<close>

definition digit :: "nat \<Rightarrow> char" where
  "digit d = ''0123456789'' ! d"

fun fmt_uint :: "nat \<Rightarrow> string" where
  "fmt_uint n =
     (if n < 10 then [digit n]
      else fmt_uint (n div 10) @ [digit (n mod 10)])"

declare fmt_uint.simps [simp del]

definition fmt_int :: "int \<Rightarrow> string" where
  "fmt_int i = (if i < 0 then ''-'' @ fmt_uint (nat (- i)) else fmt_uint (nat i))"

text \<open>The static cast of a \<open>size_t\<close> length to \<open>DWORD\<close> keeps the low 32 bits.\<close>

definition DWORD_of_size :: "nat \<Rightarrow> DWORD" where
  "DWORD_of_size n = word_of_nat n"

section \<open>Log system (Log.h, LogSystem)\<close>

datatype LogLevel = Trace | Debug | Info | Warning | Error | Off

text \<open>The enumerators' underlying values; \<open><\<close> and \<open>>=\<close> on \<open>LogLevel\<close> compare these.\<close>

fun LogLevel_value :: "LogLevel \<Rightarrow> nat" where
  "LogLevel_value Trace = 0"
| "LogLevel_value Debug = 1"
| "LogLevel_value Info = 2"
| "LogLevel_value Warning = 3"
| "LogLevel_value Error = 4"
| "LogLevel_value Off = 5"

definition BUFFER_SIZE :: nat where
  "BUFFER_SIZE = 4096"

definition FLUSH_SIZE :: nat where
  "FLUSH_SIZE = BUFFER_SIZE - 256"

fun LogLevelName :: "LogLevel \<Rightarrow> string" where
  "LogLevelName Trace = ''Trace''"
| "LogLevelName Debug = ''Debug''"
| "LogLevelName Info = ''Info''"
| "LogLevelName Warning = ''Warning''"
| "LogLevelName Error = ''Error''"
| "LogLevelName Off = ''WTF''"

text \<open>
  Where a flushed buffer goes: \<open>writer->Write(data, size)\<close> when a writer is installed,
  otherwise \<open>WriteFile\<close> on the standard error handle with the size cast to \<open>DWORD\<close>.
\<close>

datatype log_write = WriterWrite string | StdErrWrite string

record LogSystem =
  filterLevel :: LogLevel
  logBuffer :: string
  writer :: bool
  written :: "log_write list"

definition log_line :: "string \<Rightarrow> string \<Rightarrow> LogLevel \<Rightarrow> string \<Rightarrow> string" where
  "log_line threadID now severity message =
     threadID @ '' '' @ now @ '' ['' @ LogLevelName severity @ ''] '' @ message @ [CHR 0x0A]"

definition log_emit :: "string \<Rightarrow> LogSystem \<Rightarrow> LogSystem" where
  "log_emit flushBuffer s =
     s\<lparr>written := written s @
        [if writer s then WriterWrite flushBuffer
         else StdErrWrite (take (unat (DWORD_of_size (length flushBuffer))) flushBuffer)]\<rparr>"

text \<open>
  \<open>LogSystem::LogMessage\<close>. The thread id and the clock reading are inputs; the local
  \<open>flushBuffer\<close> starts empty and receives the buffer by \<open>swap\<close>.
\<close>

definition LogMessage :: "string \<Rightarrow> string \<Rightarrow> LogLevel \<Rightarrow> string \<Rightarrow> LogSystem \<Rightarrow> LogSystem" where
  "LogMessage threadID now severity message s =
     (if LogLevel_value severity < LogLevel_value (filterLevel s) then s
      else
        let buf = logBuffer s @ log_line threadID now severity message;
            swap = (FLUSH_SIZE \<le> length buf \<or> LogLevel_value Error \<le> LogLevel_value severity);
            flushBuffer = (if swap then buf else []);
            s1 = s\<lparr>logBuffer := (if swap then [] else buf)\<rparr>
        in if flushBuffer \<noteq> [] then log_emit flushBuffer s1 else s1)"

section \<open>Serial endpoint (Serial.cpp)\<close>

text \<open>
  The endpoint's calls into the operating system, into its own virtual callbacks and into
  the log are recorded, in order, in a trace. The operating system's answers are inputs.
\<close>

datatype overlapped = Nullptr | OverlappedRead | OverlappedWrite | OtherOverlapped

datatype sys_event =
    CallCreateFileA string
  | CallReadFile nat
  | CallWriteFile "byte list"
  | CallOnRead nat
  | CallOnWriteComplete
  | CallLog LogLevel

datatype 'a os_result = Ok 'a | Failed DWORD

datatype read_reply = ReadFileTrue DWORD | ReadFileFalse DWORD "DWORD option"

datatype write_reply = WriteFileTrue | WriteFileFalse DWORD

record Serial =
  fileHandle :: "nat option"
  port :: string
  bytesRead :: DWORD
  dataToWrite :: "byte list list"
  trace :: "sys_event list"

definition Serial_new :: Serial where
  "Serial_new = \<lparr>fileHandle = None, port = [], bytesRead = 0, dataToWrite = [], trace = []\<rparr>"

definition log_call :: "LogLevel \<Rightarrow> Serial \<Rightarrow> Serial" where
  "log_call level s = s\<lparr>trace := trace s @ [CallLog level]\<rparr>"

definition starts_with :: "string \<Rightarrow> string \<Rightarrow> bool" where
  "starts_with s p = (take (length p) s = p)"

text \<open>\<open>a >= b\<close> on \<open>char\<close>, which is a signed 8-bit type for this compiler.\<close>

definition char_ge :: "char \<Rightarrow> char \<Rightarrow> bool" where
  "char_ge a b = (sint (word_of_nat (of_char b) :: byte) \<le> sint (word_of_nat (of_char a) :: byte))"

text \<open>The four characters (backslash, backslash, dot, backslash) of the long device form.\<close>

definition long_prefix :: string where
  "long_prefix = [CHR 0x5C, CHR 0x5C, CHR ''.'', CHR 0x5C]"

text \<open>\<open>std::string::c_str\<close> read as a C string: the characters before the first NUL.\<close>

definition c_str :: "string \<Rightarrow> string" where
  "c_str s = takeWhile (\<lambda>c. c \<noteq> CHR 0x00) s"

text \<open>
  \<open>Serial::Initialize\<close>. \<open>created\<close> is the answer of \<open>CreateFileA\<close> (a handle, or the
  error code), \<open>configured\<close> that of \<open>SetCommState\<close>. The result is the value of the
  returned \<open>std::error_code\<close> and the new state.
\<close>

definition Initialize ::
  "string \<Rightarrow> DWORD \<Rightarrow> nat os_result \<Rightarrow> unit os_result \<Rightarrow> Serial \<Rightarrow> DWORD \<times> Serial" where
  "Initialize portName baudRate created configured s =
     (if fileHandle s \<noteq> None then (0, log_call Warning s)
      else
        let s1 = (if starts_with portName ''COM'' \<and> 4 \<le> length portName then
                    (if char_ge (portName ! 3) (CHR ''8'') \<or> 4 < length portName
                     then s\<lparr>port := long_prefix @ portName\<rparr>
                     else s\<lparr>port := portName\<rparr>)
                  else s);
            s2 = s1\<lparr>trace := trace s1 @ [CallCreateFileA (c_str (port s1))]\<rparr>
        in case created of
             Failed errorCode \<Rightarrow> (errorCode, log_call Error s2)
           | Ok h \<Rightarrow>
               (case configured of
                  Failed errorCode \<Rightarrow> (errorCode, log_call Error s2)
                | Ok u \<Rightarrow> (0, s2\<lparr>fileHandle := Some h\<rparr>)))"

definition ERROR_IO_PENDING :: DWORD where
  "ERROR_IO_PENDING = 997"

text \<open>
  \<open>Serial::WriteNextBuffer\<close>: \<open>WriteFile\<close> on the front buffer with its size cast to
  \<open>DWORD\<close>. \<open>front()\<close> of an empty queue is undefined behaviour: \<open>None\<close>.
\<close>

definition WriteNextBuffer :: "write_reply \<Rightarrow> Serial \<Rightarrow> (DWORD \<times> Serial) option" where
  "WriteNextBuffer wr s =
     (case dataToWrite s of
        [] \<Rightarrow> None
      | data # rest \<Rightarrow>
          let dataSize = DWORD_of_size (length data);
              s1 = s\<lparr>trace := trace s @ [CallWriteFile (take (unat dataSize) data)]\<rparr>
          in (case wr of
                WriteFileTrue \<Rightarrow> Some (0, s1)
              | WriteFileFalse errorCode \<Rightarrow>
                  if errorCode \<noteq> ERROR_IO_PENDING then Some (errorCode, log_call Error s1)
                  else Some (0, s1)))"

text \<open>\<open>Serial::AsyncWrite\<close>: enqueue a copy, and write if the queue now holds one buffer.\<close>

definition AsyncWrite :: "byte list \<Rightarrow> write_reply \<Rightarrow> Serial \<Rightarrow> Serial option" where
  "AsyncWrite data wr s =
     (let s1 = s\<lparr>dataToWrite := dataToWrite s @ [data]\<rparr> in
      if length (dataToWrite s1) = 1 then
        (case WriteNextBuffer wr s1 of
           None \<Rightarrow> None
         | Some (errorCode, s2) \<Rightarrow> Some (if errorCode \<noteq> 0 then log_call Error s2 else s2))
      else Some s1)"

text \<open>
  \<open>Serial::AsyncRead\<close>. \<open>comm\<close> is the answer of \<open>ClearCommError\<close> (on success the
  \<open>cbInQue\<close> it reports), \<open>rr\<close> that of \<open>ReadFile\<close>: \<open>TRUE\<close> with the count it stored in
  \<open>bytesRead\<close>, or \<open>FALSE\<close> with the error code and what it stored there, if anything.
\<close>

definition AsyncRead :: "DWORD os_result \<Rightarrow> read_reply \<Rightarrow> Serial \<Rightarrow> DWORD \<times> Serial" where
  "AsyncRead comm rr s =
     (case comm of
        Failed errorCode \<Rightarrow> (errorCode, log_call Error s)
      | Ok cbInQue \<Rightarrow>
          let readSize = (if cbInQue < 4096 then cbInQue else 4096);
              s1 = s\<lparr>trace := trace s @ [CallReadFile (unat readSize)]\<rparr>
          in (case rr of
                ReadFileTrue n \<Rightarrow> (0, s1\<lparr>bytesRead := n\<rparr>)
              | ReadFileFalse errorCode stored \<Rightarrow>
                  (errorCode,
                   log_call Error (case stored of None \<Rightarrow> s1 | Some n \<Rightarrow> s1\<lparr>bytesRead := n\<rparr>))))"

text \<open>
  \<open>Serial::OnIOComplete\<close>. The virtual \<open>OnRead(readBuffer, bytesRead)\<close> is recorded with
  its size argument (its data argument is always \<open>readBuffer\<close>). \<open>pop()\<close> on an empty
  queue is undefined behaviour: \<open>None\<close>. The function returns \<open>void\<close>.
\<close>

definition OnIOComplete ::
  "DWORD \<Rightarrow> overlapped \<Rightarrow> DWORD os_result \<Rightarrow> read_reply \<Rightarrow> write_reply \<Rightarrow> Serial \<Rightarrow> Serial option" where
  "OnIOComplete bytesTransferred ov comm rr wr s =
     (if ov = OverlappedRead then
        let s1 = (if bytesTransferred \<noteq> bytesRead s then log_call Info s else s);
            s2 = (if bytesRead s1 \<noteq> 0
                  then s1\<lparr>trace := trace s1 @ [CallOnRead (unat (bytesRead s1))]\<rparr> else s1);
            r = AsyncRead comm rr s2
        in Some (if fst r \<noteq> 0 then log_call Error (snd r) else snd r)
      else if ov = OverlappedWrite then
        let s1 = s\<lparr>trace := trace s @ [CallOnWriteComplete]\<rparr> in
        (case dataToWrite s1 of
           [] \<Rightarrow> None
         | front # rest \<Rightarrow>
             let s2 = s1\<lparr>dataToWrite := rest\<rparr> in
             if rest \<noteq> [] then
               (case WriteNextBuffer wr s2 of
                  None \<Rightarrow> None
                | Some (errorCode, s3) \<Rightarrow>
                    Some (if errorCode \<noteq> 0 then log_call Error s3 else s3))
             else Some s2)
      else Some (log_call Warning s))"

text \<open>
  A run of one endpoint's write side: calls of \<open>AsyncWrite\<close> and write completions, each
  with the answer \<open>WriteFile\<close> gives if the step calls it. The second component counts
  the writes in flight: a \<open>WriteFile\<close> that returned \<open>TRUE\<close> or \<open>ERROR_IO_PENDING\<close> is in
  flight until its completion is delivered. The operating system delivers a write
  completion only for a write in flight; a run that asks otherwise is no run (\<open>None\<close>),
  as is one that reaches undefined behaviour.
\<close>

datatype write_event = EvAsyncWrite "byte list" write_reply | EvWriteComplete write_reply

definition accepted :: "write_reply \<Rightarrow> bool" where
  "accepted wr = (case wr of WriteFileTrue \<Rightarrow> True | WriteFileFalse e \<Rightarrow> e = ERROR_IO_PENDING)"

definition count_writes :: "sys_event list \<Rightarrow> nat" where
  "count_writes tr = length (filter (\<lambda>e. case e of CallWriteFile d \<Rightarrow> True | _ \<Rightarrow> False) tr)"

definition write_step :: "write_event \<Rightarrow> Serial \<times> nat \<Rightarrow> (Serial \<times> nat) option" where
  "write_step ev st =
     (case ev of
        EvAsyncWrite data wr \<Rightarrow>
          (case AsyncWrite data wr (fst st) of
             None \<Rightarrow> None
           | Some s' \<Rightarrow>
               Some (s', if count_writes (trace (fst st)) < count_writes (trace s') \<and> accepted wr
                         then snd st + 1 else snd st))
      | EvWriteComplete wr \<Rightarrow>
          if snd st = 0 then None
          else
            (case OnIOComplete 0 OverlappedWrite (Failed 0) (ReadFileTrue 0) wr (fst st) of
               None \<Rightarrow> None
             | Some s' \<Rightarrow>
                 Some (s', if count_writes (trace (fst st)) < count_writes (trace s') \<and> accepted wr
                           then snd st else snd st - 1)))"

fun write_run :: "write_event list \<Rightarrow> Serial \<times> nat \<Rightarrow> (Serial \<times> nat) option" where
  "write_run [] st = Some st"
| "write_run (ev # evs) st =
     (case write_step ev st of None \<Rightarrow> None | Some st' \<Rightarrow> write_run evs st')"

text \<open>The buffers handed to \<open>AsyncWrite\<close> in a run, and those handed to \<open>WriteFile\<close>.\<close>

fun enqueued :: "write_event list \<Rightarrow> byte list list" where
  "enqueued [] = []"
| "enqueued (EvAsyncWrite data wr # evs) = data # enqueued evs"
| "enqueued (EvWriteComplete wr # evs) = enqueued evs"

fun submitted :: "sys_event list \<Rightarrow> byte list list" where
  "submitted [] = []"
| "submitted (CallWriteFile data # tr) = data # submitted tr"
| "submitted (e # tr) = submitted tr"

definition reply_of :: "write_event \<Rightarrow> write_reply" where
  "reply_of ev = (case ev of EvAsyncWrite d wr \<Rightarrow> wr | EvWriteComplete wr \<Rightarrow> wr)"

text \<open>
  Scenario S6: \<open>AsyncWrite("AB")\<close> and \<open>AsyncWrite("CD")\<close> back to back, then the two write
  completions.
\<close>

definition S6_run :: "write_event list" where
  "S6_run = [EvAsyncWrite [0x41, 0x42] WriteFileTrue, EvAsyncWrite [0x43, 0x44] WriteFileTrue,
             EvWriteComplete (WriteFileFalse ERROR_IO_PENDING), EvWriteComplete WriteFileTrue]"

section \<open>I/O reactor (IOContext.cpp)\<close>

definition QUIT_HANDLE :: ULONG_PTR where
  "QUIT_HANDLE = - 1"

text \<open>
  What \<open>GetQueuedCompletionStatus\<close> hands out. \<open>Dequeued\<close>: it returns \<open>TRUE\<close> with a
  completion (bytes transferred, completion key, overlapped pointer). \<open>FailedIO\<close>: it
  returns \<open>FALSE\<close> with the error code and has dequeued the completion of a failed I/O
  operation, whose bytes, key and overlapped pointer it has stored like those of any
  other completion. \<open>GetFailed\<close>: it returns \<open>FALSE\<close> with the error code and has dequeued
  nothing. The completion port is the list of what successive calls will return; when it
  is exhausted the call waits (the timeout is \<open>INFINITE\<close>).
\<close>

datatype completion =
    Dequeued DWORD ULONG_PTR overlapped
  | FailedIO DWORD DWORD ULONG_PTR overlapped
  | GetFailed DWORD

datatype run_result = Returned DWORD | Waiting

text \<open>
  \<open>IOContext::Run\<close>. The result of \<open>GetQueuedCompletionStatus\<close> is tested first: on
  \<open>FALSE\<close> the error is logged and returned, before the key is looked at. Each
  \<open>connection->OnIOComplete(bytesTransferred, overlapped)\<close> is recorded with the key that
  was cast to the connection pointer.
\<close>

fun Run :: "completion list \<Rightarrow> (ULONG_PTR \<times> DWORD \<times> overlapped) list
    \<Rightarrow> run_result \<times> (ULONG_PTR \<times> DWORD \<times> overlapped) list" where
  "Run [] dispatched = (Waiting, dispatched)"
| "Run (GetFailed errorCode # cq) dispatched = (Returned errorCode, dispatched)"
| "Run (FailedIO errorCode bytesTransferred completeKey ov # cq) dispatched =
     (Returned errorCode, dispatched)"
| "Run (Dequeued bytesTransferred completeKey ov # cq) dispatched =
     (if completeKey = QUIT_HANDLE then (Returned 0, dispatched)
      else Run cq (dispatched @ [(completeKey, bytesTransferred, ov)]))"

text \<open>
  \<open>IOContext::Quit\<close>: \<open>PostQueuedCompletionStatus(ioCompletePort, 0, QUIT_HANDLE, nullptr)\<close>,
  whose result is ignored; \<open>posted\<close> tells whether the system queued the packet.
\<close>

definition Quit :: "bool \<Rightarrow> completion list \<Rightarrow> completion list" where
  "Quit posted cq = (if posted then cq @ [Dequeued 0 QUIT_HANDLE Nullptr] else cq)"

definition dispatchable :: "completion \<Rightarrow> bool" where
  "dispatchable c =
     (case c of
        Dequeued n k ov \<Rightarrow> k \<noteq> QUIT_HANDLE
      | FailedIO e n k ov \<Rightarrow> False
      | GetFailed e \<Rightarrow> False)"

definition dispatch_of :: "completion \<Rightarrow> ULONG_PTR \<times> DWORD \<times> overlapped" where
  "dispatch_of c =
     (case c of
        Dequeued n k ov \<Rightarrow> (k, n, ov)
      | FailedIO e n k ov \<Rightarrow> (k, n, ov)
      | GetFailed e \<Rightarrow> (0, 0, Nullptr))"

section \<open>Wire data (IWR1443/Data.h)\<close>

text \<open>
  Memory is the accumulator's byte list. Reading an object of \<open>n\<close> bytes at offset \<open>a\<close>
  yields its bytes when they all lie inside the list; a read that leaves the vector's
  storage is undefined behaviour in the program and \<open>None\<close> here. Offsets are natural
  numbers: only reads are checked, not the pointer arithmetic that leads to them.
\<close>

definition rd :: "byte list \<Rightarrow> nat \<Rightarrow> nat \<Rightarrow> byte list option" where
  "rd m a n = (if a + n \<le> length m then Some (take n (drop a m)) else None)"

text \<open>Little-endian fields of an object that has been read.\<close>

definition le_nat :: "byte list \<Rightarrow> nat" where
  "le_nat bs = foldr (\<lambda>b n. unat b + 256 * n) bs 0"

definition u8_at :: "byte list \<Rightarrow> nat \<Rightarrow> 8 word" where
  "u8_at b i = word_of_nat (le_nat (take 1 (drop i b)))"

definition u16_at :: "byte list \<Rightarrow> nat \<Rightarrow> 16 word" where
  "u16_at b i = word_of_nat (le_nat (take 2 (drop i b)))"

definition u32_at :: "byte list \<Rightarrow> nat \<Rightarrow> 32 word" where
  "u32_at b i = word_of_nat (le_nat (take 4 (drop i b)))"

definition fmt_unsigned :: "'a::len word \<Rightarrow> string" where
  "fmt_unsigned w = fmt_uint (unat w)"

definition fmt_signed :: "'a::len word \<Rightarrow> string" where
  "fmt_signed w = fmt_int (sint w)"

definition sizeof_FrameHeader :: nat where
  "sizeof_FrameHeader = 36"

definition sizeof_TLVHeader :: nat where
  "sizeof_TLVHeader = 8"

definition sizeof_DetectedPoint :: nat where
  "sizeof_DetectedPoint = 16"

definition sizeof_Q9Real :: nat where
  "sizeof_Q9Real = 2"

definition sizeof_Statistics :: nat where
  "sizeof_Statistics = 24"

definition sizeof_DetectedPointSideInfo :: nat where
  "sizeof_DetectedPointSideInfo = 4"

definition sizeof_TemperatureStatistics :: nat where
  "sizeof_TemperatureStatistics = 28"

definition sizeof_SphericalCoordinate :: nat where
  "sizeof_SphericalCoordinate = 16"

definition sizeof_Tracked3DTarget :: nat where
  "sizeof_Tracked3DTarget = 84"

definition sizeof_SphericalCompressedPointCloudHeader :: nat where
  "sizeof_SphericalCompressedPointCloudHeader = 20"

definition sizeof_SphericalCompressedPoint :: nat where
  "sizeof_SphericalCompressedPoint = 8"

text \<open>
  The formatters of Data.h, each on the bytes of its struct. The rendering of a \<open>float\<close>
  by \<open>std::format\<close> is not part of the program: it is the parameter \<open>ff\<close>, applied to the
  four bytes of the value as a 32-bit word.
\<close>

definition fmt_FrameHeader :: "byte list \<Rightarrow> string" where
  "fmt_FrameHeader b =
     ''{\"version\": '' @ fmt_unsigned (u32_at b 8) @
     '', \"packetLength\": '' @ fmt_unsigned (u32_at b 12) @
     '', \"platform\": '' @ fmt_unsigned (u32_at b 16) @
     '', \"frameNumber\": '' @ fmt_unsigned (u32_at b 20) @
     '', \"time\": '' @ fmt_unsigned (u32_at b 24) @
     '', \"detectedObjectCount\": '' @ fmt_unsigned (u32_at b 28) @
     '', \"tlvCount\": '' @ fmt_unsigned (u32_at b 32) @ ''}''"

definition fmt_TLVType :: "32 word \<Rightarrow> string" where
  "fmt_TLVType t =
     (if t = 1 then ''DetectedPoints''
      else if t = 2 then ''RangeProfile''
      else if t = 3 then ''NoiseFloorProfile''
      else if t = 4 then ''AzimuthStaticHeatmap''
      else if t = 5 then ''RangeDopplerHeatmap''
      else if t = 6 then ''Statistics''
      else if t = 7 then ''DetectedPointsSideInfo''
      else if t = 8 then ''AzimuthElevationStaticHeatmap''
      else if t = 9 then ''TemperatureStatistics''
      else if t = 1000 then ''SphericalCoordinates''
      else if t = 1010 then ''TargetList''
      else if t = 1011 then ''TargetIndex''
      else if t = 1020 then ''SphericalCompressedPointCloud''
      else if t = 1021 then ''PresenceDetection''
      else if t = 1030 then ''OccupancyStateMachineOutput''
      else ''Unknown'')"

definition fmt_DetectedPoint :: "(32 word \<Rightarrow> string) \<Rightarrow> byte list \<Rightarrow> string" where
  "fmt_DetectedPoint ff b =
     ''{\"x\": '' @ ff (u32_at b 0) @ '', \"y\": '' @ ff (u32_at b 4) @
     '', \"z\": '' @ ff (u32_at b 8) @ '', \"doppler\": '' @ ff (u32_at b 12) @ ''}''"

text \<open>\<open>Q9Real\<close>: bit-fields of one \<open>uint16_t\<close>, allocated from the low bit.\<close>

definition Q9Real_sign :: "16 word \<Rightarrow> 16 word" where
  "Q9Real_sign x = x AND 1"

definition Q9Real_integer :: "16 word \<Rightarrow> 16 word" where
  "Q9Real_integer x = drop_bit 1 x AND 0x1FF"

definition Q9Real_fraction :: "16 word \<Rightarrow> 16 word" where
  "Q9Real_fraction x = drop_bit 10 x AND 0x1F"

definition fmt_Q9Real :: "byte list \<Rightarrow> string" where
  "fmt_Q9Real b =
     (let x = u16_at b 0 in
      if Q9Real_sign x \<noteq> 0
      then ''-'' @ fmt_unsigned (Q9Real_integer x) @ ''.'' @ fmt_unsigned (Q9Real_fraction x)
      else fmt_unsigned (Q9Real_integer x) @ ''.'' @ fmt_unsigned (Q9Real_fraction x))"

definition fmt_Statistics :: "byte list \<Rightarrow> string" where
  "fmt_Statistics b =
     ''{\"interFrameProcessingTime\": '' @ fmt_unsigned (u32_at b 0) @
     '', \"transmitOutputTime\": '' @ fmt_unsigned (u32_at b 4) @
     '', \"interFrameProcessingMargin\": '' @ fmt_unsigned (u32_at b 8) @
     '', \"interChirpProcessingMargin\": '' @ fmt_unsigned (u32_at b 12) @
     '', \"activeFrameCPULoad\": '' @ fmt_unsigned (u32_at b 16) @
     '', \"interFrameCPULoad\": '' @ fmt_unsigned (u32_at b 20) @ ''}''"

definition fmt_DetectedPointSideInfo :: "byte list \<Rightarrow> string" where
  "fmt_DetectedPointSideInfo b =
     ''{\"snr\": '' @ fmt_unsigned (u16_at b 0) @ '', \"noise\": '' @ fmt_unsigned (u16_at b 2) @ ''}''"

definition fmt_TemperatureStatistics :: "byte list \<Rightarrow> string" where
  "fmt_TemperatureStatistics b =
     ''{\"tempReportValid\": '' @ fmt_unsigned (u32_at b 0) @
     '', \"time\": '' @ fmt_unsigned (u32_at b 4) @
     '', \"tmpRx0Sens\": '' @ fmt_unsigned (u16_at b 8) @
     '', \"tmpRx1Sens\": '' @ fmt_unsigned (u16_at b 10) @
     '', \"tmpRx2Sens\": '' @ fmt_unsigned (u16_at b 12) @
     '', \"tmpRx3Sens\": '' @ fmt_unsigned (u16_at b 14) @
     '', \"tmpTx0Sens\": '' @ fmt_unsigned (u16_at b 16) @
     '', \"tmpTx1Sens\": '' @ fmt_unsigned (u16_at b 18) @
     '', \"tmpTx2Sens\": '' @ fmt_unsigned (u16_at b 20) @
     '', \"tmpPmSens\": '' @ fmt_unsigned (u16_at b 22) @
     '', \"tmpDig0Sens\": '' @ fmt_unsigned (u16_at b 24) @
     '', \"tmpDig1Sens\": '' @ fmt_unsigned (u16_at b 26) @ ''}''"

definition fmt_SphericalCoordinate :: "(32 word \<Rightarrow> string) \<Rightarrow> byte list \<Rightarrow> string" where
  "fmt_SphericalCoordinate ff b =
     ''{\"range\": '' @ ff (u32_at b 0) @ '', \"azimuth\": '' @ ff (u32_at b 4) @
     '', \"elevation\": '' @ ff (u32_at b 8) @ '', \"doppler\": '' @ ff (u32_at b 12) @ ''}''"

definition fmt_Tracked3DTarget :: "(32 word \<Rightarrow> string) \<Rightarrow> byte list \<Rightarrow> string" where
  "fmt_Tracked3DTarget ff b =
     ''{\"trackID\": '' @ ff (u32_at b 0) @
     '', \"position\": {\"x\": '' @ ff (u32_at b 4) @
     '', \"y\": '' @ ff (u32_at b 8) @
     '', \"z\": '' @ ff (u32_at b 12) @
     ''}, \"velocity\": {\"x\": '' @ ff (u32_at b 16) @
     '', \"y\": '' @ ff (u32_at b 20) @
     '', \"z\": '' @ ff (u32_at b 24) @
     ''}, \"acceleration\": {\"x\": '' @ ff (u32_at b 28) @
     '', \"y\": '' @ ff (u32_at b 32) @
     '', \"z\": '' @ ff (u32_at b 36) @
     ''}, \"errorCovariance\": [['' @ ff (u32_at b 40) @ '', '' @ ff (u32_at b 44) @
     '', '' @ ff (u32_at b 48) @ ''], ['' @ ff (u32_at b 52) @ '', '' @ ff (u32_at b 56) @
     '', '' @ ff (u32_at b 60) @ ''], ['' @ ff (u32_at b 64) @ '', '' @ ff (u32_at b 68) @
     '', '' @ ff (u32_at b 72) @
     '']], \"gatingFunctionGain\": '' @ ff (u32_at b 76) @
     '', \"confidenceLevel\": '' @ ff (u32_at b 80) @ ''}''"

definition fmt_SphericalCompressedPointCloudHeader ::
  "(32 word \<Rightarrow> string) \<Rightarrow> byte list \<Rightarrow> string" where
  "fmt_SphericalCompressedPointCloudHeader ff b =
     ''{\"elevationUnit\": '' @ ff (u32_at b 0) @
     '', \"azimuthUnit\": '' @ ff (u32_at b 4) @
     '', \"dopplerUnit\": '' @ ff (u32_at b 8) @
     '', \"rangeUnit\": '' @ ff (u32_at b 12) @
     '', \"snrUnit\": '' @ ff (u32_at b 16) @ ''}''"

definition fmt_SphericalCompressedPoint :: "byte list \<Rightarrow> string" where
  "fmt_SphericalCompressedPoint b =
     ''{\"elevation\": '' @ fmt_signed (u8_at b 0) @
     '', \"azimuth\": '' @ fmt_signed (u8_at b 1) @
     '', \"doppler\": '' @ fmt_signed (u16_at b 2) @
     '', \"range\": '' @ fmt_unsigned (u16_at b 4) @
     '', \"snr\": '' @ fmt_unsigned (u16_at b 6) @ ''}''"

definition fmt_uint8 :: "byte list \<Rightarrow> string" where
  "fmt_uint8 b = fmt_unsigned (u8_at b 0)"

section \<open>Data endpoint (IWR1443 DataSerial)\<close>

text \<open>
  The element loop shared by the array cases of \<open>HandleTLV\<close>:
  \<open>for (size_t i = 0; i < count; ++i) { if (i != 0) ", "; format(elements[i]); }\<close>
  over elements of \<open>sz\<close> bytes that start at offset \<open>data\<close>.
\<close>

function array_loop ::
  "(byte list \<Rightarrow> string) \<Rightarrow> nat \<Rightarrow> byte list \<Rightarrow> nat \<Rightarrow> nat \<Rightarrow> nat \<Rightarrow> string \<Rightarrow> string option" where
  "array_loop fmt sz m data i n ctx =
     (if i < n then
        (case rd m (data + i * sz) sz of
           None \<Rightarrow> None
         | Some b \<Rightarrow>
             array_loop fmt sz m data (Suc i) n ((if i \<noteq> 0 then ctx @ '', '' else ctx) @ fmt b))
      else Some ctx)"
  by pat_completeness auto
termination
  by (relation "measure (\<lambda>(fmt, sz, m, data, i, n, ctx). n - i)") auto

declare array_loop.simps [simp del]

definition format_array ::
  "(byte list \<Rightarrow> string) \<Rightarrow> nat \<Rightarrow> byte list \<Rightarrow> nat \<Rightarrow> nat \<Rightarrow> string \<Rightarrow> string option" where
  "format_array fmt sz m data n ctx =
     (case array_loop fmt sz m data 0 n (ctx @ ''\"Data\": ['') of
        None \<Rightarrow> None
      | Some ctx' \<Rightarrow> Some (ctx' @ '']''))"

text \<open>
  The point count of a \<open>SphericalCompressedPointCloud\<close>: the 32-bit length is converted
  to \<open>size_t\<close>, the header size subtracted and the difference divided, all in
  \<open>size_t\<close> arithmetic.
\<close>

definition compressed_pointCount :: "32 word \<Rightarrow> size_t" where
  "compressed_pointCount len =
     (ucast len - word_of_nat sizeof_SphericalCompressedPointCloudHeader)
       div word_of_nat sizeof_SphericalCompressedPoint"

text \<open>The \<open>switch\<close> of \<open>HandleTLV\<close> on the type, with the payload at offset \<open>data\<close>.\<close>

definition HandleTLV_switch ::
  "(32 word \<Rightarrow> string) \<Rightarrow> string \<Rightarrow> byte list \<Rightarrow> nat \<Rightarrow> 32 word \<Rightarrow> 32 word \<Rightarrow> string option" where
  "HandleTLV_switch ff ctx m data type len =
     (if type = 1 then
        format_array (fmt_DetectedPoint ff) sizeof_DetectedPoint m data
          (unat len div sizeof_DetectedPoint) ctx
      else if type = 2 then
        format_array fmt_Q9Real sizeof_Q9Real m data (unat len div sizeof_Q9Real) ctx
      else if type = 6 then
        (case rd m data sizeof_Statistics of
           None \<Rightarrow> None
         | Some b \<Rightarrow> Some (ctx @ ''\"Data\": '' @ fmt_Statistics b))
      else if type = 7 then
        format_array fmt_DetectedPointSideInfo sizeof_DetectedPointSideInfo m data
          (unat len div sizeof_DetectedPointSideInfo) ctx
      else if type = 9 then
        (case rd m data sizeof_TemperatureStatistics of
           None \<Rightarrow> None
         | Some b \<Rightarrow> Some (ctx @ ''\"Data\": '' @ fmt_TemperatureStatistics b))
      else if type = 1000 then
        format_array (fmt_SphericalCoordinate ff) sizeof_SphericalCoordinate m data
          (unat len div sizeof_SphericalCoordinate) ctx
      else if type = 1010 then
        format_array (fmt_Tracked3DTarget ff) sizeof_Tracked3DTarget m data
          (unat len div sizeof_Tracked3DTarget) ctx
      else if type = 1011 then
        format_array fmt_uint8 1 m data (unat len) ctx
      else if type = 1020 then
        (case rd m data sizeof_SphericalCompressedPointCloudHeader of
           None \<Rightarrow> None
         | Some h \<Rightarrow>
             (case array_loop fmt_SphericalCompressedPoint sizeof_SphericalCompressedPoint m
                     (data + sizeof_SphericalCompressedPointCloudHeader) 0
                     (unat (compressed_pointCount len))
                     (ctx @ ''\"Data\": {'' @ ''\"Header\": '' @
                      fmt_SphericalCompressedPointCloudHeader ff h @ '', '' @ ''\"Points\": ['') of
                None \<Rightarrow> None
              | Some ctx' \<Rightarrow> Some (ctx' @ '']}'')))
      else Some ctx)"

text \<open>
  \<open>HandleTLV\<close>: appends the rendering of the TLV at offset \<open>tlv\<close> to \<open>ctx\<close> and returns
  the number of bytes to advance, \<open>tlvHeader->length + sizeof(TLVHeader)\<close> in \<open>size_t\<close>.
\<close>

definition HandleTLV ::
  "(32 word \<Rightarrow> string) \<Rightarrow> string \<Rightarrow> byte list \<Rightarrow> nat \<Rightarrow> (string \<times> nat) option" where
  "HandleTLV ff ctx m tlv =
     (case rd m tlv sizeof_TLVHeader of
        None \<Rightarrow> None
      | Some h \<Rightarrow>
          (case HandleTLV_switch ff (ctx @ ''{\"Type\": \"'' @ fmt_TLVType (u32_at h 0) @ ''\", '')
                  m (tlv + sizeof_TLVHeader) (u32_at h 0) (u32_at h 4) of
             None \<Rightarrow> None
           | Some ctx' \<Rightarrow> Some (ctx' @ ''}'', unat (u32_at h 4) + sizeof_TLVHeader)))"

text \<open>The TLV loop of \<open>HandleFrame\<close>, with \<open>iter\<close> the offset of the next TLV.\<close>

function HandleFrame_loop ::
  "(32 word \<Rightarrow> string) \<Rightarrow> byte list \<Rightarrow> nat \<Rightarrow> nat \<Rightarrow> nat \<Rightarrow> string \<Rightarrow> string option" where
  "HandleFrame_loop ff m i tlvCount iter ctx =
     (if i < tlvCount then
        (case HandleTLV ff (if i \<noteq> 0 then ctx @ '', '' else ctx) m iter of
           None \<Rightarrow> None
         | Some r \<Rightarrow> HandleFrame_loop ff m (Suc i) tlvCount (iter + snd r) (fst r))
      else Some ctx)"
  by pat_completeness auto
termination
  by (relation "measure (\<lambda>(ff, m, i, tlvCount, iter, ctx). tlvCount - i)") auto

declare HandleFrame_loop.simps [simp del]

text \<open>The string \<open>HandleFrame\<close> builds for the frame at the start of the accumulator.\<close>

definition HandleFrame_ctx :: "(32 word \<Rightarrow> string) \<Rightarrow> byte list \<Rightarrow> string option" where
  "HandleFrame_ctx ff m =
     (case rd m 0 sizeof_FrameHeader of
        None \<Rightarrow> None
      | Some h \<Rightarrow>
          (case HandleFrame_loop ff m 0 (unat (u32_at h 32)) sizeof_FrameHeader
                  (''{\"Header\": '' @ fmt_FrameHeader h @ '', \"TLVs\": ['') of
             None \<Rightarrow> None
           | Some ctx \<Rightarrow> Some (ctx @ '']}, '')))"

datatype sink_call = WriterCall string | StdoutWrite string

record DataSerial =
  buffer :: "byte list"
  persistantWriter :: bool
  emitted :: "sink_call list"

text \<open>
  \<open>DataSerial::Persistant\<close>: the installed writer gets the data and its size; without a
  writer the data goes to \<open>WriteFile\<close> on standard output with the size cast to \<open>DWORD\<close>.
\<close>

definition Persistant :: "string \<Rightarrow> DataSerial \<Rightarrow> DataSerial" where
  "Persistant ctx s =
     s\<lparr>emitted := emitted s @
        [if persistantWriter s then WriterCall ctx
         else StdoutWrite (take (unat (DWORD_of_size (length ctx))) ctx)]\<rparr>"

definition HandleFrame :: "(32 word \<Rightarrow> string) \<Rightarrow> DataSerial \<Rightarrow> DataSerial option" where
  "HandleFrame ff s =
     (case HandleFrame_ctx ff (buffer s) of
        None \<Rightarrow> None
      | Some ctx \<Rightarrow> Some (Persistant ctx s))"

definition magic :: "byte list" where
  "magic = [0x02, 0x01, 0x04, 0x03, 0x06, 0x05, 0x08, 0x07]"

text \<open>
  \<open>LocateFrameHeader\<close>: \<open>searchEnd = searchStart + size - sizeof(FrameHeader) + 1\<close>, and
  the loop runs while \<open>searchStart != searchEnd\<close>. For a buffer of 35 bytes the two are
  equal and the result is \<open>nullptr\<close>. For a shorter buffer \<open>searchEnd\<close> would lie before
  \<open>searchStart\<close>; the only caller passes at least \<open>sizeof(FrameHeader)\<close> bytes, and from
  35 bytes on \<open>searchStart\<close> never passes \<open>searchEnd\<close>, so that the loop test is
  \<open>searchStart < searchEnd\<close>. The result is the offset of the match, \<open>None\<close> for
  \<open>nullptr\<close>.
\<close>

function LocateFrameHeader_loop :: "byte list \<Rightarrow> nat \<Rightarrow> nat \<Rightarrow> nat option" where
  "LocateFrameHeader_loop m searchStart searchEnd =
     (if searchStart < searchEnd then
        (if take 8 (drop searchStart m) = magic then Some searchStart
         else LocateFrameHeader_loop m (Suc searchStart) searchEnd)
      else None)"
  by pat_completeness auto
termination
  by (relation "measure (\<lambda>(m, searchStart, searchEnd). searchEnd - searchStart)") auto

declare LocateFrameHeader_loop.simps [simp del]

definition LocateFrameHeader :: "byte list \<Rightarrow> nat option" where
  "LocateFrameHeader m = LocateFrameHeader_loop m 0 (length m + 1 - sizeof_FrameHeader)"

text \<open>\<open>DataSerial::OnRead\<close>; \<open>None\<close> when the frame decoder reads outside the buffer.\<close>

definition OnRead :: "(32 word \<Rightarrow> string) \<Rightarrow> byte list \<Rightarrow> DataSerial \<Rightarrow> DataSerial option" where
  "OnRead ff data s =
     (let s1 = s\<lparr>buffer := buffer s @ data\<rparr> in
      if length (buffer s1) < sizeof_FrameHeader then Some s1
      else
        (case LocateFrameHeader (buffer s1) of
           None \<Rightarrow> Some (s1\<lparr>buffer := []\<rparr>)
         | Some frameStart \<Rightarrow>
             let s2 = (if frameStart \<noteq> 0 then s1\<lparr>buffer := drop frameStart (buffer s1)\<rparr> else s1)
             in if length (buffer s2) < unat (u32_at (buffer s2) 12) then Some s2
                else
                  (case HandleFrame ff s2 of
                     None \<Rightarrow> None
                   | Some s3 \<Rightarrow> Some (s3\<lparr>buffer := []\<rparr>))))"

text \<open>A stream delivered as successive \<open>OnRead\<close> calls, one per chunk.\<close>

fun OnRead_chunks ::
  "(32 word \<Rightarrow> string) \<Rightarrow> byte list list \<Rightarrow> DataSerial \<Rightarrow> DataSerial option" where
  "OnRead_chunks ff [] s = Some s"
| "OnRead_chunks ff (c # cs) s =
     (case OnRead ff c s of None \<Rightarrow> None | Some s' \<Rightarrow> OnRead_chunks ff cs s')"

text \<open>Whether the 8-byte magic occurs in a byte sequence.\<close>

fun contains_magic :: "byte list \<Rightarrow> bool" where
  "contains_magic [] = False"
| "contains_magic (x # xs) = (take 8 (x # xs) = magic \<or> contains_magic xs)"

definition DataSerial_new :: "bool \<Rightarrow> DataSerial" where
  "DataSerial_new w = \<lparr>buffer = [], persistantWriter = w, emitted = []\<rparr>"

text \<open>The bytes of scenario S1: one frame with a single Statistics TLV.\<close>

definition S1_bytes :: "byte list" where
  "S1_bytes =
     [0x02, 0x01, 0x04, 0x03, 0x06, 0x05, 0x08, 0x07,
      0x03, 0x00, 0x00, 0x00,  0x34, 0x00, 0x00, 0x00,  0x16, 0x00, 0x00, 0x00,
      0x01, 0x00, 0x00, 0x00,  0xE8, 0x03, 0x00, 0x00,  0x00, 0x00, 0x00, 0x00,
      0x01, 0x00, 0x00, 0x00,
      0x06, 0x00, 0x00, 0x00,  0x18, 0x00, 0x00, 0x00,
      0x0A, 0x00, 0x00, 0x00,  0x14, 0x00, 0x00, 0x00,  0x1E, 0x00, 0x00, 0x00,
      0x28, 0x00, 0x00, 0x00,  0x32, 0x00, 0x00, 0x00,  0x3C, 0x00, 0x00, 0x00]"

definition S1_json :: string where
  "S1_json =
     ''{\"Header\": {\"version\": 3, \"packetLength\": 52, \"platform\": 22, \"frameNumber\": 1, '' @
     ''\"time\": 1000, \"detectedObjectCount\": 0, \"tlvCount\": 1}, \"TLVs\": ['' @
     ''{\"Type\": \"Statistics\", \"Data\": {\"interFrameProcessingTime\": 10, '' @
     ''\"transmitOutputTime\": 20, \"interFrameProcessingMargin\": 30, '' @
     ''\"interChirpProcessingMargin\": 40, \"activeFrameCPULoad\": 50, '' @
     ''\"interFrameCPULoad\": 60}}]}, ''"

text \<open>
  S1 declares \<open>packetLength = 52\<close> but is 68 bytes long (a 36-byte header, an 8-byte TLV
  header and 24 bytes of payload). \<open>S1_exact\<close> is S1 with the field set to 68.
\<close>

definition S1_exact :: "byte list" where
  "S1_exact = take 12 S1_bytes @ [0x44, 0x00, 0x00, 0x00] @ drop 16 S1_bytes"

definition S1_exact_json :: string where
  "S1_exact_json =
     ''{\"Header\": {\"version\": 3, \"packetLength\": 68, \"platform\": 22, \"frameNumber\": 1, '' @
     ''\"time\": 1000, \"detectedObjectCount\": 0, \"tlvCount\": 1}, \"TLVs\": ['' @
     ''{\"Type\": \"Statistics\", \"Data\": {\"interFrameProcessingTime\": 10, '' @
     ''\"transmitOutputTime\": 20, \"interFrameProcessingMargin\": 30, '' @
     ''\"interChirpProcessingMargin\": 40, \"activeFrameCPULoad\": 50, '' @
     ''\"interFrameCPULoad\": 60}}]}, ''"

text \<open>The four garbage bytes of scenario S2.\<close>

definition S2_garbage :: "byte list" where
  "S2_garbage = [0xDE, 0xAD, 0xBE, 0xEF]"

text \<open>A stream cut into one-byte chunks (scenario S3).\<close>

definition bytewise :: "byte list \<Rightarrow> byte list list" where
  "bytewise bs = map (\<lambda>b. [b]) bs"

text \<open>
  A concrete value for the parameter \<open>ff\<close> in closed examples: it prints the bits of the
  \<open>float\<close> as an unsigned integer. No statement depends on this choice.
\<close>

definition float_raw :: "32 word \<Rightarrow> string" where
  "float_raw w = fmt_unsigned w"



section \<open>Properties of the log system\<close>

lemma log_line_nonempty: "log_line threadID now severity message \<noteq> []"
  by (simp add: log_line_def)

text \<open>
  Claim C8. A message whose level is strictly below the filter level changes nothing.
  Otherwise the formatted line is appended to the buffer, and the buffer is swapped out and
  written (as one write, to the writer if one is installed and to standard error
  otherwise) exactly when its size has reached \<open>FLUSH_SIZE = 3840\<close> or the severity is
  \<open>Error\<close> or higher; in every other case the line only stays in the buffer.
\<close>

theorem LogMessage_filter_and_flush:
  "LogMessage threadID now severity message s =
     (if LogLevel_value severity < LogLevel_value (filterLevel s) then s
      else if 3840 \<le> length (logBuffer s @ log_line threadID now severity message)
              \<or> LogLevel_value Error \<le> LogLevel_value severity
      then s\<lparr>logBuffer := [],
             written := written s @
               [if writer s then WriterWrite (logBuffer s @ log_line threadID now severity message)
                else StdErrWrite
                  (take (unat (DWORD_of_size (length (logBuffer s @ log_line threadID now severity message))))
                     (logBuffer s @ log_line threadID now severity message))]\<rparr>
      else s\<lparr>logBuffer := logBuffer s @ log_line threadID now severity message\<rparr>)"
  using log_line_nonempty [of threadID now severity message]
  by (simp add: LogMessage_def Let_def log_emit_def FLUSH_SIZE_def BUFFER_SIZE_def)

section \<open>Properties of the serial endpoint\<close>

text \<open>
  Claim C7. The claim says that every port name is opened under its own name or its long
  form. The code assigns \<open>port\<close> only for names that start with \<open>COM\<close> and have at least
  four characters; for any other name the field keeps its old value, so a fresh endpoint
  asked for \<open>LPT1\<close> calls \<open>CreateFileA\<close> with the empty name.
\<close>

theorem Initialize_port_without_COM_prefix:
  "Initialize ''LPT1'' 115200 (Failed 3) (Ok ()) Serial_new =
     (3, Serial_new\<lparr>trace := [CallCreateFileA [], CallLog Error]\<rparr>)"
  by (simp add: Initialize_def Serial_new_def starts_with_def c_str_def log_call_def Let_def)

text \<open>
  Claim C5, as amended. On a completion with the read tag the endpoint logs at \<open>Info\<close>
  level when \<open>bytesTransferred\<close> differs from its field \<open>bytesRead\<close>, calls \<open>OnRead\<close> exactly
  once with the read buffer and the size \<open>bytesRead\<close> when \<open>bytesRead\<close> is not zero (and not
  at all when it is zero), whatever \<open>bytesTransferred\<close> is, then calls \<open>AsyncRead\<close> and logs
  its error, if any; nothing is returned to the caller.
\<close>

theorem OnIOComplete_read_uses_bytesRead:
  "map_option trace (OnIOComplete bytesTransferred OverlappedRead comm rr wr s) =
     Some (trace s
       @ (if bytesTransferred \<noteq> bytesRead s then [CallLog Info] else [])
       @ (if bytesRead s \<noteq> 0 then [CallOnRead (unat (bytesRead s))] else [])
       @ trace (snd (AsyncRead comm rr (s\<lparr>trace := []\<rparr>)))
       @ (if fst (AsyncRead comm rr s) \<noteq> 0 then [CallLog Error] else []))"
  by (auto simp add: OnIOComplete_def AsyncRead_def log_call_def Let_def
      split: os_result.splits read_reply.splits option.splits)

text \<open>
  The claim as stated fails: a completion that transferred 5 bytes to an endpoint whose
  \<open>bytesRead\<close> is 0 (the read was started as a pending overlapped read) does not reach
  \<open>OnRead\<close> at all.
\<close>

theorem OnIOComplete_read_counterexample:
  "OnIOComplete 5 OverlappedRead (Ok 5) (ReadFileFalse 997 None) WriteFileTrue Serial_new =
     Some (Serial_new\<lparr>trace := [CallLog Info, CallReadFile 5, CallLog Error, CallLog Error]\<rparr>)"
  by (simp add: OnIOComplete_def AsyncRead_def log_call_def Let_def Serial_new_def)

section \<open>Properties of the reactor\<close>

lemma Run_snd: "snd (Run cq d) = d @ map dispatch_of (takeWhile dispatchable cq)"
  by (induction cq d rule: Run.induct) (simp_all add: dispatchable_def dispatch_of_def)

lemma Run_all_dispatchable:
  "\<forall>c\<in>set pre. dispatchable c \<Longrightarrow> Run (pre @ rest) d = Run rest (d @ map dispatch_of pre)"
proof (induction pre arbitrary: d)
  case Nil
  then show ?case by simp
next
  case (Cons c pre)
  then show ?case
    by (cases c) (simp_all add: dispatchable_def dispatch_of_def)
qed

lemma takeWhile_keys: "k \<in> fst ` set (map dispatch_of (takeWhile dispatchable cq)) \<Longrightarrow> k \<noteq> QUIT_HANDLE"
proof -
  assume "k \<in> fst ` set (map dispatch_of (takeWhile dispatchable cq))"
  then obtain c where c: "c \<in> set (takeWhile dispatchable cq)" "k = fst (dispatch_of c)"
    by auto
  then have "dispatchable c" by (meson set_takeWhileD)
  with c(2) show ?thesis
    by (cases c) (simp_all add: dispatchable_def dispatch_of_def)
qed

text \<open>
  Claim C6, as amended. \<open>Quit\<close> posts a completion with key \<open>QUIT_HANDLE\<close> (all ones), zero
  bytes and a null overlapped pointer. \<open>Run\<close> dispatches every completion that
  \<open>GetQueuedCompletionStatus\<close> dequeues with \<open>TRUE\<close> and a key other than the sentinel to
  the endpoint its key names, in order, until it returns: with success on dequeuing the
  sentinel, which is never dispatched, and with the error code on the first call that
  returns \<open>FALSE\<close>. A completion that arrives with \<open>FALSE\<close> (that of a failed I/O
  operation) is not dispatched, whatever its key. Nothing behind the completion on which
  \<open>Run\<close> returns is dispatched, and no dispatch ever carries the sentinel key.
\<close>

theorem Run_returns_on_quit_sentinel:
  assumes "\<forall>c\<in>set pre. dispatchable c"
  shows "Quit True cq = cq @ [Dequeued 0 QUIT_HANDLE Nullptr]
       \<and> unat QUIT_HANDLE = 2 ^ 64 - 1
       \<and> Run (pre @ Dequeued n QUIT_HANDLE ov # post) [] = (Returned 0, map dispatch_of pre)
       \<and> Run (Quit True pre) [] = (Returned 0, map dispatch_of pre)
       \<and> Run (pre @ FailedIO e n k ov # post) [] = (Returned e, map dispatch_of pre)
       \<and> Run (pre @ GetFailed e # post) [] = (Returned e, map dispatch_of pre)
       \<and> snd (Run cq []) = map dispatch_of (takeWhile dispatchable cq)
       \<and> QUIT_HANDLE \<notin> fst ` set (snd (Run cq []))"
proof -
  have q: "Quit True cq = cq @ [Dequeued 0 QUIT_HANDLE Nullptr]"
    by (simp add: Quit_def)
  have m: "unat QUIT_HANDLE = 2 ^ 64 - 1"
    by (simp add: QUIT_HANDLE_def unsigned_minus_1_eq_mask mask_eq_exp_minus_1)
  have a: "Run (pre @ Dequeued n QUIT_HANDLE ov # post) [] = (Returned 0, map dispatch_of pre)"
    by (simp add: Run_all_dispatchable [OF assms])
  have b: "Run (Quit True pre) [] = (Returned 0, map dispatch_of pre)"
    by (simp add: Quit_def Run_all_dispatchable [OF assms])
  have f: "Run (pre @ FailedIO e n k ov # post) [] = (Returned e, map dispatch_of pre)"
    by (simp add: Run_all_dispatchable [OF assms])
  have g: "Run (pre @ GetFailed e # post) [] = (Returned e, map dispatch_of pre)"
    by (simp add: Run_all_dispatchable [OF assms])
  have c: "snd (Run cq []) = map dispatch_of (takeWhile dispatchable cq)"
    by (simp add: Run_snd)
  have d: "QUIT_HANDLE \<notin> fst ` set (snd (Run cq []))"
    using takeWhile_keys [of QUIT_HANDLE cq] unfolding c by blast
  from q m a b f g c d show ?thesis by blast
qed

theorem Run_returns_on_quit_sentinel_witness:
  "Run ([Dequeued 5 0x1000 OverlappedRead, Dequeued 2 0x2000 OverlappedWrite]
          @ Dequeued 0 QUIT_HANDLE Nullptr # [Dequeued 7 0x1000 OverlappedRead]) []
     = (Returned 0, [(0x1000, 5, OverlappedRead), (0x2000, 2, OverlappedWrite)])
   \<and> Run (Quit True [Dequeued 5 0x1000 OverlappedRead, Dequeued 2 0x2000 OverlappedWrite]) []
     = (Returned 0, [(0x1000, 5, OverlappedRead), (0x2000, 2, OverlappedWrite)])
   \<and> Run ([Dequeued 5 0x1000 OverlappedRead, Dequeued 2 0x2000 OverlappedWrite]
          @ FailedIO 995 0 0x1000 OverlappedRead # [Dequeued 7 0x1000 OverlappedRead]) []
     = (Returned 995, [(0x1000, 5, OverlappedRead), (0x2000, 2, OverlappedWrite)])"
proof -
  have h: "\<forall>c\<in>set [Dequeued 5 0x1000 OverlappedRead, Dequeued 2 0x2000 OverlappedWrite]. dispatchable c"
    by (simp add: dispatchable_def QUIT_HANDLE_def)
  note t = Run_returns_on_quit_sentinel
             [OF h, where n = 0 and ov = Nullptr and post = "[Dequeued 7 0x1000 OverlappedRead]"
               and cq = "[]"]
  note u = Run_returns_on_quit_sentinel
             [OF h, where n = 0 and ov = OverlappedRead and e = 995 and k = "0x1000"
               and post = "[Dequeued 7 0x1000 OverlappedRead]" and cq = "[]"]
  have a: "Run ([Dequeued 5 0x1000 OverlappedRead, Dequeued 2 0x2000 OverlappedWrite]
                  @ Dequeued 0 QUIT_HANDLE Nullptr # [Dequeued 7 0x1000 OverlappedRead]) []
           = (Returned 0,
              map dispatch_of [Dequeued 5 0x1000 OverlappedRead, Dequeued 2 0x2000 OverlappedWrite])"
    using t by blast
  have b: "Run (Quit True [Dequeued 5 0x1000 OverlappedRead, Dequeued 2 0x2000 OverlappedWrite]) []
           = (Returned 0,
              map dispatch_of [Dequeued 5 0x1000 OverlappedRead, Dequeued 2 0x2000 OverlappedWrite])"
    using t by blast
  have f: "Run ([Dequeued 5 0x1000 OverlappedRead, Dequeued 2 0x2000 OverlappedWrite]
                  @ FailedIO 995 0 0x1000 OverlappedRead # [Dequeued 7 0x1000 OverlappedRead]) []
           = (Returned 995,
              map dispatch_of [Dequeued 5 0x1000 OverlappedRead, Dequeued 2 0x2000 OverlappedWrite])"
    using u by blast
  have m: "map dispatch_of [Dequeued 5 0x1000 OverlappedRead, Dequeued 2 0x2000 OverlappedWrite]
           = [(0x1000, 5, OverlappedRead), (0x2000, 2, OverlappedWrite)]"
    by (simp add: dispatch_of_def)
  show ?thesis
    by (simp only: a b f m)
qed

text \<open>
  The claim as stated fails for the completion of a failed I/O operation: it carries the
  key of its endpoint, not the sentinel, yet \<open>Run\<close> does not dispatch it and returns.
\<close>

theorem Run_failed_io_counterexample:
  "Run [FailedIO 995 0 0x1000 OverlappedRead, Dequeued 0 QUIT_HANDLE Nullptr] [] =
     (Returned 995, [])
   \<and> (0x1000 :: ULONG_PTR) \<noteq> QUIT_HANDLE"
  by (simp add: QUIT_HANDLE_def)

section \<open>Properties of the TLV decoder\<close>

lemmas sizeof_defs =
  sizeof_FrameHeader_def sizeof_TLVHeader_def sizeof_DetectedPoint_def sizeof_Q9Real_def
  sizeof_Statistics_def sizeof_DetectedPointSideInfo_def sizeof_TemperatureStatistics_def
  sizeof_SphericalCoordinate_def sizeof_Tracked3DTarget_def
  sizeof_SphericalCompressedPointCloudHeader_def sizeof_SphericalCompressedPoint_def

declare sizeof_defs [simp]

lemma unat_ucast_32_64: "unat (ucast (w :: 32 word) :: 64 word) = unat w"
proof -
  have "unat w < 2 ^ 32" using unsigned_less [of w] by simp
  then have "unat w < 2 ^ 64" by simp
  then show ?thesis by (simp add: unsigned_ucast_eq take_bit_nat_eq_self)
qed

lemma compressed_pointCount_unat:
  "unat (compressed_pointCount len) =
     (if 20 \<le> unat len then (unat len - 20) div 8 else (unat len + 2 ^ 64 - 20) div 8)"
  by (simp add: compressed_pointCount_def unat_div unat_sub_if' unat_ucast_32_64)

lemma array_loop_eq:
  "array_loop fmt sz m data i n ctx =
     (if n \<le> i \<or> data + n * sz \<le> length m
      then Some (ctx @ concat (map (\<lambda>j. (if j \<noteq> 0 then '', '' else []) @ fmt (take sz (drop (data + j * sz) m))) [i..<n]))
      else None)"
proof (induction fmt sz m data i n ctx rule: array_loop.induct)
  case (1 fmt sz m data i n ctx)
  show ?case
  proof (cases "i < n")
    case False
    then show ?thesis by (simp add: array_loop.simps)
  next
    case True
    note lt = this
    show ?thesis
    proof (cases "data + i * sz + sz \<le> length m")
      case False
      have "data + i * sz + sz \<le> data + n * sz"
        using lt by (metis Suc_leI add.assoc add_le_cancel_left mult_Suc mult_le_mono1 add.commute)
      with False lt show ?thesis
        by (simp add: array_loop.simps [of fmt sz m data i n ctx] rd_def)
    next
      case inb: True
      then have r: "rd m (data + i * sz) sz = Some (take sz (drop (data + i * sz) m))"
        by (simp add: rd_def)
      have "array_loop fmt sz m data i n ctx =
            array_loop fmt sz m data (Suc i) n
              ((if i \<noteq> 0 then ctx @ '', '' else ctx) @ fmt (take sz (drop (data + i * sz) m)))"
        using lt r by (simp add: array_loop.simps [of fmt sz m data i n ctx])
      also have "\<dots> = (if n \<le> Suc i \<or> data + n * sz \<le> length m
          then Some (((if i \<noteq> 0 then ctx @ '', '' else ctx) @ fmt (take sz (drop (data + i * sz) m)))
                 @ concat (map (\<lambda>j. (if j \<noteq> 0 then '', '' else []) @ fmt (take sz (drop (data + j * sz) m))) [Suc i..<n]))
          else None)"
        using "1.IH" [OF lt r] .
      also have "\<dots> = (if n \<le> i \<or> data + n * sz \<le> length m
          then Some (ctx @ concat (map (\<lambda>j. (if j \<noteq> 0 then '', '' else []) @ fmt (take sz (drop (data + j * sz) m))) [i..<n]))
          else None)"
      proof (cases "n = Suc i")
        case True
        with inb show ?thesis by (simp add: add.assoc)
      next
        case False
        with lt have "Suc i < n" by simp
        then show ?thesis using lt by (simp add: upt_conv_Cons)
      qed
      finally show ?thesis .
    qed
  qed
qed







text \<open>
  Claim C10, as amended. The point count of a SphericalCompressedPointCloud TLV is
  \<open>(length - 20) / 8\<close> in 64-bit unsigned arithmetic (a point is 8 bytes, not 10). It
  equals \<open>(length - 20) div 8\<close> only when \<open>length \<ge> 20\<close>; for \<open>length < 20\<close> the subtraction
  wraps and the count is \<open>(2^64 + length - 20) div 8\<close>, more than \<open>2^60\<close>, so that on any
  accumulator shorter than that the element loop reads outside it.
\<close>

theorem compressed_pointCount_wraps:
  "(20 \<le> unat len \<longrightarrow> unat (compressed_pointCount len) = (unat len - 20) div 8) \<and>
   (unat len < 20 \<longrightarrow>
      unat (compressed_pointCount len) = (2 ^ 64 + unat len - 20) div 8 \<and>
      2 ^ 60 < unat (compressed_pointCount len) \<and>
      (length m < 2 ^ 60 \<longrightarrow> HandleTLV_switch ff ctx m data 1020 len = None))"
proof -
  have big: "2 ^ 60 < unat (compressed_pointCount len)" if "unat len < 20"
    using that by (simp add: compressed_pointCount_unat)
  have none: "HandleTLV_switch ff ctx m data 1020 len = None"
    if "unat len < 20" "length m < 2 ^ 60"
  proof -
    have "\<not> (data + 20 + unat (compressed_pointCount len) * 8 \<le> length m)"
      using big [OF that(1)] that(2) by simp
    moreover have "\<not> unat (compressed_pointCount len) \<le> 0"
      using big [OF that(1)] by simp
    ultimately show ?thesis
      by (simp add: HandleTLV_switch_def array_loop_eq split: option.splits)
  qed
  show ?thesis
    using big none by (simp add: compressed_pointCount_unat add.commute)
qed

theorem compressed_pointCount_wraps_witness:
  "unat (compressed_pointCount 28) = 1 \<and>
   unat (compressed_pointCount 4) = 2305843009213693950 \<and>
   HandleTLV_switch float_raw [] [] 0 1020 4 = None"
  using compressed_pointCount_wraps [of 28 "[]" float_raw "[]" 0]
        compressed_pointCount_wraps [of 4 "[]" float_raw "[]" 0]
  by simp

text \<open>
  The claim as stated divides by 10: for \<open>length = 28\<close> it gives no point, where the code
  computes one point and renders it.
\<close>

theorem compressed_pointCount_counterexample:
  "unat (compressed_pointCount 28) \<noteq> (28 - 20) div 10 \<and>
   HandleTLV float_raw []
     [0xFC, 0x03, 0, 0,  0x1C, 0, 0, 0,
      0, 0, 0, 0,  0, 0, 0, 0,  0, 0, 0, 0,  0, 0, 0, 0,  0, 0, 0, 0,
      1, 0xFF, 2, 0, 3, 0, 4, 0] 0 =
   Some (''{\"Type\": \"SphericalCompressedPointCloud\", \"Data\": {\"Header\": '' @
         ''{\"elevationUnit\": 0, \"azimuthUnit\": 0, \"dopplerUnit\": 0, \"rangeUnit\": 0, '' @
         ''\"snrUnit\": 0}, \"Points\": [{\"elevation\": 1, \"azimuth\": -1, \"doppler\": 2, '' @
         ''\"range\": 3, \"snr\": 4}]}}'', 36)"
  by (simp add: compressed_pointCount_unat HandleTLV_def HandleTLV_switch_def rd_def
      array_loop.simps u32_at_def u16_at_def u8_at_def le_nat_def fmt_TLVType_def
      fmt_SphericalCompressedPointCloudHeader_def fmt_SphericalCompressedPoint_def
      float_raw_def fmt_unsigned_def fmt_signed_def fmt_int_def fmt_uint.simps digit_def)

section \<open>Properties of the data endpoint\<close>

subsection \<open>Reads survive an extension of the accumulator\<close>

lemma rd_append: "rd m a n = Some b \<Longrightarrow> rd (m @ e) a n = Some b"
  by (auto simp add: rd_def split: if_splits)

lemma array_loop_append:
  "array_loop fmt sz m data i n ctx = Some r \<Longrightarrow> array_loop fmt sz (m @ e) data i n ctx = Some r"
proof (induction fmt sz m data i n ctx rule: array_loop.induct)
  case (1 fmt sz m data i n ctx)
  show ?case
  proof (cases "i < n")
    case False
    then have "array_loop fmt sz m data i n ctx = Some ctx"
      and "array_loop fmt sz (m @ e) data i n ctx = Some ctx"
      by (simp_all add: array_loop.simps [of fmt sz _ data i n ctx])
    with "1.prems" show ?thesis by simp
  next
    case True
    with "1.prems" obtain b where b: "rd m (data + i * sz) sz = Some b"
      by (auto simp add: array_loop.simps [of fmt sz m data i n ctx] split: option.splits)
    with True "1.prems" have
      "array_loop fmt sz m data (Suc i) n ((if i \<noteq> 0 then ctx @ '', '' else ctx) @ fmt b) = Some r"
      by (simp add: array_loop.simps [of fmt sz m data i n ctx])
    then have "array_loop fmt sz (m @ e) data (Suc i) n ((if i \<noteq> 0 then ctx @ '', '' else ctx) @ fmt b) = Some r"
      by (rule "1.IH" [OF True b])
    with True rd_append [OF b, of e] show ?thesis
      by (simp add: array_loop.simps [of fmt sz "m @ e" data i n ctx])
  qed
qed

lemma format_array_append:
  assumes "format_array fmt sz m data n ctx = Some r"
  shows "format_array fmt sz (m @ e) data n ctx = Some r"
proof -
  from assms obtain c where
    c: "array_loop fmt sz m data 0 n (ctx @ ''\"Data\": ['') = Some c" and r: "r = c @ '']''"
    by (auto simp add: format_array_def split: option.splits)
  from array_loop_append [OF c, of e] r show ?thesis
    by (simp add: format_array_def)
qed

lemma rd_case_append:
  assumes "(case rd m a n of None \<Rightarrow> None | Some b \<Rightarrow> Some (f b)) = Some r"
  shows "(case rd (m @ e) a n of None \<Rightarrow> None | Some b \<Rightarrow> Some (f b)) = Some r"
proof -
  from assms obtain b where b: "rd m a n = Some b" and r: "r = f b"
    by (auto split: option.splits)
  from rd_append [OF b, of e] r show ?thesis by simp
qed

lemma HandleTLV_switch_append:
  assumes "HandleTLV_switch ff ctx m data type len = Some r"
  shows "HandleTLV_switch ff ctx (m @ e) data type len = Some r"
proof -
  consider "type = 1" | "type = 2" | "type = 6" | "type = 7" | "type = 9" | "type = 1000"
    | "type = 1010" | "type = 1011" | "type = 1020"
    | "type \<notin> {1, 2, 6, 7, 9, 1000, 1010, 1011, 1020}"
    by blast
  then show ?thesis
  proof cases
    case 1
    with assms show ?thesis by (simp add: HandleTLV_switch_def format_array_append)
  next
    case 2
    with assms show ?thesis by (simp add: HandleTLV_switch_def format_array_append)
  next
    case 3
    with assms show ?thesis
      by (simp add: HandleTLV_switch_def rd_case_append del: sizeof_defs)
  next
    case 4
    with assms show ?thesis by (simp add: HandleTLV_switch_def format_array_append)
  next
    case 5
    with assms show ?thesis
      by (simp add: HandleTLV_switch_def rd_case_append del: sizeof_defs)
  next
    case 6
    with assms show ?thesis by (simp add: HandleTLV_switch_def format_array_append)
  next
    case 7
    with assms show ?thesis by (simp add: HandleTLV_switch_def format_array_append)
  next
    case 8
    with assms show ?thesis by (simp add: HandleTLV_switch_def format_array_append)
  next
    case 9
    with assms obtain h c where
      h: "rd m data sizeof_SphericalCompressedPointCloudHeader = Some h" and
      c: "array_loop fmt_SphericalCompressedPoint sizeof_SphericalCompressedPoint m
            (data + sizeof_SphericalCompressedPointCloudHeader) 0 (unat (compressed_pointCount len))
            (ctx @ ''\"Data\": {'' @ ''\"Header\": '' @
             fmt_SphericalCompressedPointCloudHeader ff h @ '', '' @ ''\"Points\": ['') = Some c" and
      r: "r = c @ '']}''"
      by (auto simp add: HandleTLV_switch_def split: option.splits)
    from 9 rd_append [OF h, of e] array_loop_append [OF c, of e] r show ?thesis
      by (simp add: HandleTLV_switch_def)
  next
    case 10
    with assms show ?thesis by (simp add: HandleTLV_switch_def)
  qed
qed

lemma HandleTLV_append:
  assumes "HandleTLV ff ctx m tlv = Some r"
  shows "HandleTLV ff ctx (m @ e) tlv = Some r"
proof -
  from assms obtain h c where
    h: "rd m tlv sizeof_TLVHeader = Some h" and
    c: "HandleTLV_switch ff (ctx @ ''{\"Type\": \"'' @ fmt_TLVType (u32_at h 0) @ ''\", '')
          m (tlv + sizeof_TLVHeader) (u32_at h 0) (u32_at h 4) = Some c" and
    r: "r = (c @ ''}'', unat (u32_at h 4) + sizeof_TLVHeader)"
    by (auto simp add: HandleTLV_def split: option.splits)
  from rd_append [OF h, of e] HandleTLV_switch_append [OF c, of e] r show ?thesis
    by (simp add: HandleTLV_def)
qed

lemma HandleFrame_loop_append:
  "HandleFrame_loop ff m i tlvCount iter ctx = Some r \<Longrightarrow>
   HandleFrame_loop ff (m @ e) i tlvCount iter ctx = Some r"
proof (induction ff m i tlvCount iter ctx rule: HandleFrame_loop.induct)
  case (1 ff m i tlvCount iter ctx)
  show ?case
  proof (cases "i < tlvCount")
    case False
    then have "HandleFrame_loop ff m i tlvCount iter ctx = Some ctx"
      and "HandleFrame_loop ff (m @ e) i tlvCount iter ctx = Some ctx"
      by (simp_all add: HandleFrame_loop.simps [of ff _ i tlvCount iter ctx])
    with "1.prems" show ?thesis by simp
  next
    case True
    with "1.prems" obtain t where
      t: "HandleTLV ff (if i \<noteq> 0 then ctx @ '', '' else ctx) m iter = Some t"
      by (auto simp add: HandleFrame_loop.simps [of ff m i tlvCount iter ctx] split: option.splits)
    with True "1.prems" have "HandleFrame_loop ff m (Suc i) tlvCount (iter + snd t) (fst t) = Some r"
      by (simp add: HandleFrame_loop.simps [of ff m i tlvCount iter ctx])
    then have "HandleFrame_loop ff (m @ e) (Suc i) tlvCount (iter + snd t) (fst t) = Some r"
      by (rule "1.IH" [OF True t])
    with True HandleTLV_append [OF t, of e] show ?thesis
      by (simp add: HandleFrame_loop.simps [of ff "m @ e" i tlvCount iter ctx])
  qed
qed

lemma HandleFrame_ctx_append:
  assumes "HandleFrame_ctx ff m = Some r"
  shows "HandleFrame_ctx ff (m @ e) = Some r"
proof -
  from assms obtain h c where
    h: "rd m 0 sizeof_FrameHeader = Some h" and
    c: "HandleFrame_loop ff m 0 (unat (u32_at h 32)) sizeof_FrameHeader
          (''{\"Header\": '' @ fmt_FrameHeader h @ '', \"TLVs\": ['') = Some c" and
    r: "r = c @ '']}, ''"
    by (auto simp add: HandleFrame_ctx_def split: option.splits)
  from rd_append [OF h, of e] HandleFrame_loop_append [OF c, of e] r show ?thesis
    by (simp add: HandleFrame_ctx_def)
qed

lemma HandleFrame_ctx_length:
  "HandleFrame_ctx ff m = Some r \<Longrightarrow> sizeof_FrameHeader \<le> length m"
  by (auto simp add: HandleFrame_ctx_def rd_def split: option.splits if_splits)

subsection \<open>Locating the header\<close>

lemma LocateFrameHeader_loop_found:
  assumes "take 8 (drop k m) = magic" and "k < e"
      and "\<And>j. i \<le> j \<Longrightarrow> j < k \<Longrightarrow> take 8 (drop j m) \<noteq> magic"
      and "i \<le> k"
  shows "LocateFrameHeader_loop m i e = Some k"
  using assms
proof (induction "k - i" arbitrary: i)
  case 0
  then have "i = k" by simp
  with "0.prems" show ?case
    by (simp add: LocateFrameHeader_loop.simps [of m k e])
next
  case (Suc d)
  then have lt: "i < k" by simp
  then have ne: "take 8 (drop i m) \<noteq> magic"
    using Suc.prems(3) [of i] by simp
  have "LocateFrameHeader_loop m (Suc i) e = Some k"
  proof (rule Suc.hyps(1))
    show "d = k - Suc i" using Suc.hyps(2) by simp
    show "take 8 (drop k m) = magic" by (rule Suc.prems(1))
    show "k < e" by (rule Suc.prems(2))
    show "\<And>j. Suc i \<le> j \<Longrightarrow> j < k \<Longrightarrow> take 8 (drop j m) \<noteq> magic"
      using Suc.prems(3) by simp
    show "Suc i \<le> k" using lt by simp
  qed
  with lt ne Suc.prems(2) show ?case
    by (simp add: LocateFrameHeader_loop.simps [of m i e])
qed

lemma LocateFrameHeader_at_start:
  assumes "take 8 m = magic" and "sizeof_FrameHeader \<le> length m"
  shows "LocateFrameHeader m = Some 0"
  using assms
  by (simp add: LocateFrameHeader_def LocateFrameHeader_loop.simps [of m 0])

lemma contains_magic_at: "take 8 (drop j xs) = magic \<Longrightarrow> contains_magic xs"
proof (induction xs arbitrary: j)
  case Nil
  then show ?case by (simp add: magic_def)
next
  case (Cons x xs)
  then show ?case by (cases j) simp_all
qed

lemma magic_nth: "0 < d \<Longrightarrow> d < 8 \<Longrightarrow> magic ! d \<noteq> magic ! 0"
proof -
  assume "0 < d" "d < 8"
  then consider "d = 1" | "d = 2" | "d = 3" | "d = 4" | "d = 5" | "d = 6" | "d = 7"
    by arith
  then show ?thesis by cases (simp_all add: magic_def)
qed

lemma no_magic_before_frame:
  assumes G: "\<not> contains_magic G" and F: "take 8 F = magic" and j: "j < length G"
  shows "take 8 (drop j (G @ F @ T)) \<noteq> magic"
proof
  assume eq: "take 8 (drop j (G @ F @ T)) = magic"
  have "length (take 8 F) = 8"
    using F by (simp add: magic_def)
  then have lenF: "8 \<le> length F" by simp
  show False
  proof (cases "j + 8 \<le> length G")
    case True
    then have "take 8 (drop j (G @ F @ T)) = take 8 (drop j G)" by simp
    with eq G contains_magic_at [of j G] show False by simp
  next
    case False
    define d where "d = length G - j"
    have d: "0 < d" "d < 8" using False j by (simp_all add: d_def)
    have "(take 8 (drop j (G @ F @ T))) ! d = drop j (G @ F @ T) ! d"
      using d(2) by (rule nth_take)
    also have "\<dots> = (G @ F @ T) ! (j + d)"
      using j by (intro nth_drop) simp
    also have "j + d = length G"
      using j by (simp add: d_def)
    also have "(G @ F @ T) ! length G = F ! 0"
      using lenF by (cases F) (simp_all add: nth_append)
    also have "\<dots> = take 8 F ! 0" by simp
    also have "\<dots> = magic ! 0" using F by simp
    finally have "magic ! d = magic ! 0" using eq by simp
    with magic_nth [OF d] show False by simp
  qed
qed

subsection \<open>One call of OnRead\<close>

lemma u32_at_append: "i + 4 \<le> length m \<Longrightarrow> u32_at (m @ e) i = u32_at m i"
  by (simp add: u32_at_def)

lemma OnRead_frame_at_start:
  assumes "take 8 m = magic" and "sizeof_FrameHeader \<le> length m"
      and "unat (u32_at m 12) \<le> length m" and "buffer s = []"
  shows "OnRead ff m s =
           (case HandleFrame_ctx ff m of
              None \<Rightarrow> None
            | Some ctx \<Rightarrow> Some ((Persistant ctx s)\<lparr>buffer := []\<rparr>))"
  using assms LocateFrameHeader_at_start [OF assms(1,2)]
  by (simp add: OnRead_def HandleFrame_def Persistant_def Let_def split: option.splits)

text \<open>
  Claim C3, as amended. The decoder compares no TLV length with \<open>packetLength\<close>. Once the
  accumulator starts with the magic and holds at least \<open>packetLength\<close> bytes (and a whole
  header), \<open>OnRead\<close> walks the TLVs through the bytes the accumulator really holds,
  also past \<open>packetLength\<close>: it either emits one record for the frame and then clears the
  accumulator, or reads outside the accumulator. It never drops the frame, that is, never
  just clears the accumulator without emitting.
\<close>

theorem OnRead_never_drops_located_frame:
  assumes "take 8 m = magic" and "sizeof_FrameHeader \<le> length m"
      and "unat (u32_at m 12) \<le> length m" and "buffer s = []"
  shows "OnRead ff m s =
           (case HandleFrame_ctx ff m of
              None \<Rightarrow> None
            | Some ctx \<Rightarrow> Some ((Persistant ctx s)\<lparr>buffer := []\<rparr>))
       \<and> OnRead ff m s \<noteq> Some (s\<lparr>buffer := []\<rparr>)"
proof -
  have a: "OnRead ff m s =
           (case HandleFrame_ctx ff m of
              None \<Rightarrow> None
            | Some ctx \<Rightarrow> Some ((Persistant ctx s)\<lparr>buffer := []\<rparr>))"
    by (rule OnRead_frame_at_start [OF assms])
  have "emitted ((Persistant ctx s)\<lparr>buffer := []\<rparr>) \<noteq> emitted (s\<lparr>buffer := []\<rparr>)" for ctx
    by (simp add: Persistant_def)
  then have "(Persistant ctx s)\<lparr>buffer := []\<rparr> \<noteq> s\<lparr>buffer := []\<rparr>" for ctx
    by metis
  with a show ?thesis by (simp split: option.splits)
qed

lemmas frame_eval =
  HandleFrame_ctx_def HandleFrame_loop.simps HandleTLV_def HandleTLV_switch_def
  rd_def fmt_FrameHeader_def fmt_Statistics_def fmt_TLVType_def fmt_unsigned_def
  u32_at_def le_nat_def fmt_uint.simps digit_def

lemma HandleFrame_ctx_S1: "HandleFrame_ctx ff S1_bytes = Some S1_json"
  by (simp add: frame_eval S1_bytes_def S1_json_def)

lemma HandleFrame_ctx_S1_exact: "HandleFrame_ctx ff S1_exact = Some S1_exact_json"
  by (simp add: frame_eval S1_exact_def S1_bytes_def S1_exact_json_def)

theorem OnRead_never_drops_located_frame_witness:
  "OnRead float_raw S1_bytes (DataSerial_new True) =
     Some \<lparr>buffer = [], persistantWriter = True, emitted = [WriterCall S1_json]\<rparr>
   \<and> unat (u32_at S1_bytes 12) < sizeof_FrameHeader + (sizeof_TLVHeader + unat (u32_at S1_bytes 40))"
proof -
  have 1: "take 8 S1_bytes = magic" by (simp add: S1_bytes_def magic_def)
  have 2: "sizeof_FrameHeader \<le> length S1_bytes" by (simp add: S1_bytes_def)
  have 3: "unat (u32_at S1_bytes 12) \<le> length S1_bytes"
    by (simp add: S1_bytes_def u32_at_def le_nat_def)
  have 4: "buffer (DataSerial_new True) = []" by (simp add: DataSerial_new_def)
  have 5: "unat (u32_at S1_bytes 12) < sizeof_FrameHeader + (sizeof_TLVHeader + unat (u32_at S1_bytes 40))"
    by (simp add: S1_bytes_def u32_at_def le_nat_def)
  show ?thesis
    using OnRead_never_drops_located_frame [OF 1 2 3 4, of float_raw] 5
    by (simp add: HandleFrame_ctx_S1 Persistant_def DataSerial_new_def)
qed

lemmas onread_eval =
  OnRead_def HandleFrame_def Persistant_def DataSerial_new_def Let_def
  LocateFrameHeader_def LocateFrameHeader_loop.simps magic_def frame_eval

text \<open>
  The claim as stated fails on S1 itself: its TLV overruns the declared 52 bytes, yet the
  frame is emitted, and the record depends on bytes beyond offset 52.
\<close>

theorem OnRead_overrun_counterexample:
  "unat (u32_at S1_bytes 12) < sizeof_FrameHeader + (sizeof_TLVHeader + unat (u32_at S1_bytes 40))
   \<and> OnRead float_raw S1_bytes (DataSerial_new True) =
       Some \<lparr>buffer = [], persistantWriter = True, emitted = [WriterCall S1_json]\<rparr>
   \<and> OnRead float_raw (take 64 S1_bytes @ [0x3D, 0, 0, 0]) (DataSerial_new True) \<noteq>
       OnRead float_raw S1_bytes (DataSerial_new True)"
  by (simp add: onread_eval S1_bytes_def S1_json_def)

lemma LocateFrameHeader_behind_garbage:
  assumes G: "\<not> contains_magic G" and F: "take 8 F = magic" and len: "sizeof_FrameHeader \<le> length F"
  shows "LocateFrameHeader (G @ F @ T) = Some (length G)"
proof -
  have "take 8 (drop (length G) (G @ F @ T)) = magic"
    using F len by simp
  moreover have "length G < length (G @ F @ T) + 1 - sizeof_FrameHeader"
    using len by simp
  moreover have "\<And>j. 0 \<le> j \<Longrightarrow> j < length G \<Longrightarrow> take 8 (drop j (G @ F @ T)) \<noteq> magic"
    using no_magic_before_frame [OF G F] by simp
  ultimately show ?thesis
    unfolding LocateFrameHeader_def
    by (intro LocateFrameHeader_loop_found) simp_all
qed

text \<open>
  Claim C2, as amended. When a stream \<open>G \<cdot> F \<cdot> T\<close> arrives in a single \<open>OnRead\<close> call on an
  empty accumulator, where \<open>G\<close> does not contain the magic and \<open>F\<close> is a frame that starts
  with the magic, declares a \<open>packetLength\<close> of at most its own length and decodes inside
  its own bytes, exactly one record is emitted, it is the decoding of \<open>F\<close>, and the
  accumulator is cleared (whatever the trailing bytes \<open>T\<close> are).
\<close>

theorem OnRead_resync_single_call:
  assumes "\<not> contains_magic G" and "take 8 F = magic"
      and "unat (u32_at F 12) \<le> length F" and "HandleFrame_ctx ff F = Some ctx"
      and "buffer s = []"
  shows "OnRead ff (G @ F @ T) s = Some ((Persistant ctx s)\<lparr>buffer := []\<rparr>)"
proof -
  have len: "sizeof_FrameHeader \<le> length F"
    by (rule HandleFrame_ctx_length [OF assms(4)])
  have loc: "LocateFrameHeader (G @ F @ T) = Some (length G)"
    by (rule LocateFrameHeader_behind_garbage [OF assms(1,2) len])
  have pl: "u32_at (F @ T) 12 = u32_at F 12"
    using len by (intro u32_at_append) simp
  have dec: "HandleFrame_ctx ff (F @ T) = Some ctx"
    by (rule HandleFrame_ctx_append [OF assms(4)])
  show ?thesis
  proof (cases "G = []")
    case True
    with loc pl dec assms(3,5) len show ?thesis
      by (simp add: OnRead_def HandleFrame_def Persistant_def Let_def)
  next
    case False
    with loc pl dec assms(3,5) len show ?thesis
      by (simp add: OnRead_def HandleFrame_def Persistant_def Let_def)
  qed
qed

theorem OnRead_resync_single_call_witness:
  "OnRead float_raw (S2_garbage @ S1_bytes @ [0xAA, 0xBB]) (DataSerial_new True) =
     Some \<lparr>buffer = [], persistantWriter = True, emitted = [WriterCall S1_json]\<rparr>"
proof -
  have 1: "\<not> contains_magic S2_garbage" by (simp add: S2_garbage_def magic_def)
  have 2: "take 8 S1_bytes = magic" by (simp add: S1_bytes_def magic_def)
  have 3: "unat (u32_at S1_bytes 12) \<le> length S1_bytes"
    by (simp add: S1_bytes_def u32_at_def le_nat_def)
  have 4: "buffer (DataSerial_new True) = []" by (simp add: DataSerial_new_def)
  show ?thesis
    using OnRead_resync_single_call [OF 1 2 3 HandleFrame_ctx_S1 4, of float_raw "[0xAA, 0xBB]"]
    by (simp add: Persistant_def DataSerial_new_def)
qed

text \<open>
  The claim as stated does not fix how the stream is delivered, and fails when it arrives
  byte by byte: the scan at 36 accumulated bytes looks at offset 0 only, finds no magic
  there and clears the accumulator, so no frame is ever decoded.
\<close>

theorem OnRead_resync_bytewise_counterexample:
  "OnRead_chunks float_raw (bytewise (S2_garbage @ S1_exact)) (DataSerial_new True) =
     Some \<lparr>buffer = [], persistantWriter = True, emitted = []\<rparr>
   \<and> OnRead_chunks float_raw (bytewise (S2_garbage @ S1_bytes)) (DataSerial_new True) =
     Some \<lparr>buffer = [], persistantWriter = True, emitted = []\<rparr>"
  by (simp add: onread_eval bytewise_def S2_garbage_def S1_exact_def S1_bytes_def)

lemma OnRead_append:
  "OnRead ff (c @ d) s = OnRead ff d (s\<lparr>buffer := buffer s @ c\<rparr>)"
  by (simp add: OnRead_def)

lemma OnRead_chunks_empty:
  "concat cs = [] \<Longrightarrow> buffer s = [] \<Longrightarrow> OnRead_chunks ff cs s = Some s"
proof (induction cs)
  case Nil
  then show ?case by simp
next
  case (Cons c cs)
  then have "c = []" by simp
  with Cons.prems(2) have "OnRead ff c s = Some s"
    by (simp add: OnRead_def)
  with Cons show ?case by simp
qed

lemma OnRead_waits:
  assumes F: "take 8 F = magic" and pl: "unat (u32_at F 12) = length F"
      and P: "P @ R = F" and b: "buffer s @ c = P"
      and w: "length P < sizeof_FrameHeader \<or> length P < length F"
  shows "OnRead ff c s = Some (s\<lparr>buffer := P\<rparr>)"
proof (cases "length P < sizeof_FrameHeader")
  case True
  with b show ?thesis by (simp add: OnRead_def Let_def)
next
  case False
  then have len: "sizeof_FrameHeader \<le> length P" by simp
  with w have lt: "length P < length F" by simp
  have "take 8 P = take 8 F" using P len by auto
  with F have m: "take 8 P = magic" by simp
  have loc: "LocateFrameHeader P = Some 0"
    by (rule LocateFrameHeader_at_start [OF m len])
  have "u32_at (P @ R) 12 = u32_at P 12"
    using len by (intro u32_at_append) simp
  with P pl have "unat (u32_at P 12) = length F" by simp
  with lt loc len b show ?thesis
    by (simp add: OnRead_def Let_def)
qed

lemma OnRead_done_buffer:
  assumes "take 8 F = magic" and "sizeof_FrameHeader \<le> length F"
      and "unat (u32_at F 12) = length F" and "buffer s @ c = F" and "OnRead ff c s = Some s'"
  shows "buffer s' = []"
proof -
  have loc: "LocateFrameHeader F = Some 0"
    by (rule LocateFrameHeader_at_start [OF assms(1,2)])
  with assms show ?thesis
    by (auto simp add: OnRead_def Let_def HandleFrame_def split: option.splits)
qed

lemma OnRead_chunks_prefix:
  assumes F: "take 8 F = magic" and pl: "unat (u32_at F 12) = length F"
  shows "buffer s @ concat cs = F \<Longrightarrow>
         length (buffer s) < sizeof_FrameHeader \<or> length (buffer s) < length F \<Longrightarrow>
         OnRead_chunks ff cs s = OnRead ff (concat cs) s"
proof (induction cs arbitrary: s)
  case Nil
  then have "buffer s = F" by simp
  with Nil.prems(2) show ?case by (simp add: OnRead_def Let_def)
next
  case (Cons c cs)
  define P where "P = buffer s @ c"
  have PF: "P @ concat cs = F" using Cons.prems(1) by (simp add: P_def)
  show ?case
  proof (cases "length P < sizeof_FrameHeader \<or> length P < length F")
    case True
    have step: "OnRead ff c s = Some (s\<lparr>buffer := P\<rparr>)"
      by (rule OnRead_waits [OF F pl PF _ True]) (simp add: P_def)
    have "OnRead_chunks ff cs (s\<lparr>buffer := P\<rparr>) = OnRead ff (concat cs) (s\<lparr>buffer := P\<rparr>)"
      using PF True by (intro Cons.IH) simp_all
    with step show ?thesis
      by (simp add: OnRead_append P_def)
  next
    case False
    then have len: "sizeof_FrameHeader \<le> length P" and ge: "length F \<le> length P" by simp_all
    with PF have rest: "concat cs = []" and PeqF: "P = F" by auto
    from rest have cc: "concat (c # cs) = c" by simp
    show ?thesis
    proof (cases "OnRead ff c s")
      case None
      then show ?thesis by (simp only: cc OnRead_chunks.simps option.case)
    next
      case (Some s')
      have lenF: "sizeof_FrameHeader \<le> length F" using len PeqF by simp
      have bc: "buffer s @ c = F" using PeqF by (simp add: P_def)
      have "buffer s' = []"
        by (rule OnRead_done_buffer [OF F lenF pl bc Some])
      then have "OnRead_chunks ff cs s' = Some s'"
        using rest by (intro OnRead_chunks_empty)
      with Some show ?thesis by (simp only: cc OnRead_chunks.simps option.case)
    qed
  qed
qed

text \<open>
  Claim C1, as amended. When the stream is exactly one frame \<open>F\<close> that starts with the
  magic and whose \<open>packetLength\<close> field equals its length, delivered to an empty
  accumulator, every partition of it into \<open>OnRead\<close> calls gives the result of the single
  call; when \<open>F\<close> decodes inside its own bytes that result is exactly one record, the
  decoding of \<open>F\<close>, and an empty accumulator.
\<close>

theorem OnRead_split_invariance_exact_frame:
  assumes "take 8 F = magic" and "unat (u32_at F 12) = length F"
      and "concat cs = F" and "buffer s = []"
  shows "OnRead_chunks ff cs s = OnRead_chunks ff [F] s
       \<and> (\<forall>ctx. HandleFrame_ctx ff F = Some ctx \<longrightarrow>
            OnRead_chunks ff cs s = Some ((Persistant ctx s)\<lparr>buffer := []\<rparr>))"
proof -
  have "OnRead_chunks ff cs s = OnRead ff (concat cs) s"
    using assms by (intro OnRead_chunks_prefix [of F]) simp_all
  then have a: "OnRead_chunks ff cs s = OnRead ff F s"
    using assms(3) by simp
  have b: "OnRead_chunks ff [F] s = OnRead ff F s"
    by (simp split: option.splits)
  have c: "OnRead ff F s = Some ((Persistant ctx s)\<lparr>buffer := []\<rparr>)"
    if h: "HandleFrame_ctx ff F = Some ctx" for ctx
    using OnRead_frame_at_start [OF assms(1) HandleFrame_ctx_length [OF h] _ assms(4), of ff]
      assms(2) h by simp
  from a b c show ?thesis by simp
qed

theorem OnRead_split_invariance_exact_frame_witness:
  "OnRead_chunks float_raw (bytewise S1_exact) (DataSerial_new True) =
     OnRead_chunks float_raw [S1_exact] (DataSerial_new True)
   \<and> OnRead_chunks float_raw (bytewise S1_exact) (DataSerial_new True) =
     Some \<lparr>buffer = [], persistantWriter = True, emitted = [WriterCall S1_exact_json]\<rparr>"
proof -
  have 1: "take 8 S1_exact = magic" by (simp add: S1_exact_def S1_bytes_def magic_def)
  have 2: "unat (u32_at S1_exact 12) = length S1_exact"
    by (simp add: S1_exact_def S1_bytes_def u32_at_def le_nat_def)
  have 3: "concat (bytewise S1_exact) = S1_exact"
    by (simp add: bytewise_def S1_exact_def S1_bytes_def)
  have 4: "buffer (DataSerial_new True) = []" by (simp add: DataSerial_new_def)
  note t = OnRead_split_invariance_exact_frame [OF 1 2 3 4, of float_raw]
  have a: "OnRead_chunks float_raw (bytewise S1_exact) (DataSerial_new True) =
           OnRead_chunks float_raw [S1_exact] (DataSerial_new True)"
    using t by (rule conjunct1)
  have b: "OnRead_chunks float_raw (bytewise S1_exact) (DataSerial_new True) =
           Some ((Persistant S1_exact_json (DataSerial_new True))\<lparr>buffer := []\<rparr>)"
    using t HandleFrame_ctx_S1_exact [of float_raw] by blast
  have c: "(Persistant S1_exact_json (DataSerial_new True))\<lparr>buffer := []\<rparr> =
           \<lparr>buffer = [], persistantWriter = True, emitted = [WriterCall S1_exact_json]\<rparr>"
    by (simp add: Persistant_def DataSerial_new_def)
  show ?thesis
  proof (intro conjI)
    show "OnRead_chunks float_raw (bytewise S1_exact) (DataSerial_new True) =
          OnRead_chunks float_raw [S1_exact] (DataSerial_new True)"
      by (rule a)
    show "OnRead_chunks float_raw (bytewise S1_exact) (DataSerial_new True) =
          Some \<lparr>buffer = [], persistantWriter = True, emitted = [WriterCall S1_exact_json]\<rparr>"
      by (simp only: b c)
  qed
qed

text \<open>
  The claim as stated fails in both parts. With four garbage bytes in front of a frame,
  delivery in one call emits the frame and delivery in two calls of 36 bytes emits
  nothing. S1 itself declares 52 bytes but is 68 bytes long: delivered at once it is
  emitted, delivered byte by byte the decoder runs when 52 bytes have arrived and reads
  outside the accumulator.
\<close>

theorem OnRead_split_counterexample:
  "OnRead_chunks float_raw [S2_garbage @ S1_exact] (DataSerial_new True) =
     Some \<lparr>buffer = [], persistantWriter = True, emitted = [WriterCall S1_exact_json]\<rparr>
   \<and> OnRead_chunks float_raw [take 36 (S2_garbage @ S1_exact), drop 36 (S2_garbage @ S1_exact)]
        (DataSerial_new True) =
     Some \<lparr>buffer = [], persistantWriter = True, emitted = []\<rparr>
   \<and> OnRead_chunks float_raw [S1_bytes] (DataSerial_new True) =
     Some \<lparr>buffer = [], persistantWriter = True, emitted = [WriterCall S1_json]\<rparr>
   \<and> OnRead_chunks float_raw (bytewise S1_bytes) (DataSerial_new True) = None"
  by (simp add: onread_eval bytewise_def S2_garbage_def S1_exact_def S1_bytes_def
      S1_exact_json_def S1_json_def)

section \<open>Properties of the write queue\<close>

lemma submitted_append: "submitted (tr @ tr') = submitted tr @ submitted tr'"
  by (induction tr rule: submitted.induct) simp_all

lemma count_writes_submitted: "count_writes tr = length (submitted tr)"
  by (induction tr rule: submitted.induct) (simp_all add: count_writes_def)

lemma submitted_log_call [simp]: "submitted (trace (log_call level t)) = submitted (trace t)"
  by (simp add: log_call_def submitted_append)

lemma dataToWrite_log_call [simp]: "dataToWrite (log_call level t) = dataToWrite t"
  by (simp add: log_call_def)

lemma WriteNextBuffer_Some:
  assumes "dataToWrite t = d # rest"
  obtains e t' where "WriteNextBuffer wr t = Some (e, t')"
    and "dataToWrite t' = dataToWrite t"
    and "submitted (trace t') = submitted (trace t) @ [take (unat (DWORD_of_size (length d))) d]"
proof (cases wr)
  case WriteFileTrue
  with assms that show ?thesis
    by (simp add: WriteNextBuffer_def Let_def submitted_append)
next
  case (WriteFileFalse errorCode)
  with assms that show ?thesis
    by (cases "errorCode = ERROR_IO_PENDING")
       (simp_all add: WriteNextBuffer_def Let_def submitted_append)
qed

lemma AsyncWrite_effect:
  "map_option (\<lambda>t'. (dataToWrite t', submitted (trace t'))) (AsyncWrite d wr t) =
     Some (dataToWrite t @ [d],
           submitted (trace t) @
             (if dataToWrite t = [] then [take (unat (DWORD_of_size (length d))) d] else []))"
proof (cases "dataToWrite t = []")
  case True
  then have q: "dataToWrite (t\<lparr>dataToWrite := dataToWrite t @ [d]\<rparr>) = d # []" by simp
  obtain e t' where w: "WriteNextBuffer wr (t\<lparr>dataToWrite := dataToWrite t @ [d]\<rparr>) = Some (e, t')"
    and q': "dataToWrite t' = dataToWrite (t\<lparr>dataToWrite := dataToWrite t @ [d]\<rparr>)"
    and s': "submitted (trace t') = submitted (trace (t\<lparr>dataToWrite := dataToWrite t @ [d]\<rparr>))
               @ [take (unat (DWORD_of_size (length d))) d]"
    by (rule WriteNextBuffer_Some [OF q])
  from True w q' s' show ?thesis
    by (simp add: AsyncWrite_def Let_def)
next
  case False
  then have "length (dataToWrite t @ [d]) \<noteq> 1" by (cases "dataToWrite t") simp_all
  with False show ?thesis
    by (simp add: AsyncWrite_def Let_def)
qed

lemma OnIOComplete_write_effect:
  "map_option (\<lambda>t'. (dataToWrite t', submitted (trace t')))
     (OnIOComplete n OverlappedWrite comm rr wr t) =
     (case dataToWrite t of
        [] \<Rightarrow> None
      | front # rest \<Rightarrow>
          Some (rest, submitted (trace t) @
                  (case rest of [] \<Rightarrow> [] | d # ds \<Rightarrow> [take (unat (DWORD_of_size (length d))) d])))"
proof (cases "dataToWrite t")
  case Nil
  then show ?thesis by (simp add: OnIOComplete_def Let_def)
next
  case (Cons front rest)
  note Q = this
  show ?thesis
  proof (cases rest)
    case Nil
    with Q show ?thesis
      by (simp add: OnIOComplete_def Let_def submitted_append)
  next
    case (Cons d ds)
    define t2 where "t2 = t\<lparr>trace := trace t @ [CallOnWriteComplete], dataToWrite := rest\<rparr>"
    have q: "dataToWrite t2 = d # ds" by (simp add: t2_def Cons)
    obtain e t' where w: "WriteNextBuffer wr t2 = Some (e, t')"
      and q': "dataToWrite t' = dataToWrite t2"
      and s': "submitted (trace t') = submitted (trace t2) @ [take (unat (DWORD_of_size (length d))) d]"
      by (rule WriteNextBuffer_Some [OF q])
    from Q Cons w q' s' show ?thesis
      by (simp add: OnIOComplete_def Let_def t2_def submitted_append)
  qed
qed

lemma write_run_snoc:
  "write_run (evs @ [ev]) st =
     (case write_run evs st of None \<Rightarrow> None | Some st' \<Rightarrow> write_step ev st')"
  by (induction evs arbitrary: st) (simp_all split: option.splits)

lemma enqueued_snoc:
  "enqueued (evs @ [ev]) =
     enqueued evs @ (case ev of EvAsyncWrite d wr \<Rightarrow> [d] | EvWriteComplete wr \<Rightarrow> [])"
  by (induction evs rule: enqueued.induct) (simp_all split: write_event.splits)

lemma map_option_pair_SomeD:
  "map_option (\<lambda>t'. (f t', g t')) x = Some (a, b) \<Longrightarrow> \<exists>t'. x = Some t' \<and> f t' = a \<and> g t' = b"
  by (cases x) simp_all

lemma write_step_AsyncWrite:
  assumes "write_step (EvAsyncWrite d wr) (t, j) = Some (s, k)"
  shows "dataToWrite s = dataToWrite t @ [d]"
    and "submitted (trace s) = submitted (trace t) @
           (if dataToWrite t = [] then [take (unat (DWORD_of_size (length d))) d] else [])"
    and "k = (if dataToWrite t = [] \<and> accepted wr then j + 1 else j)"
proof -
  obtain t' where t': "AsyncWrite d wr t = Some t'"
    and q: "dataToWrite t' = dataToWrite t @ [d]"
    and w: "submitted (trace t') = submitted (trace t) @
           (if dataToWrite t = [] then [take (unat (DWORD_of_size (length d))) d] else [])"
    using map_option_pair_SomeD [OF AsyncWrite_effect [of d wr t]] by blast
  from assms t' have s: "s = t'"
    and k: "k = (if count_writes (trace t) < count_writes (trace t') \<and> accepted wr then j + 1 else j)"
    by (auto simp add: write_step_def)
  from s q show "dataToWrite s = dataToWrite t @ [d]" by simp
  from s w show "submitted (trace s) = submitted (trace t) @
           (if dataToWrite t = [] then [take (unat (DWORD_of_size (length d))) d] else [])" by simp
  from k w show "k = (if dataToWrite t = [] \<and> accepted wr then j + 1 else j)"
    by (simp add: count_writes_submitted)
qed

lemma write_step_WriteComplete:
  assumes "write_step (EvWriteComplete wr) (t, j) = Some (s, k)"
  shows "j \<noteq> 0"
    and "\<exists>front. dataToWrite t = front # dataToWrite s"
    and "submitted (trace s) = submitted (trace t) @
           (case dataToWrite s of [] \<Rightarrow> [] | d # ds \<Rightarrow> [take (unat (DWORD_of_size (length d))) d])"
    and "k = (if dataToWrite s \<noteq> [] \<and> accepted wr then j else j - 1)"
proof -
  from assms show j: "j \<noteq> 0"
    by (auto simp add: write_step_def split: if_splits)
  with assms obtain t' where t': "OnIOComplete 0 OverlappedWrite (Failed 0) (ReadFileTrue 0) wr t = Some t'"
    and s: "s = t'"
    and k: "k = (if count_writes (trace t) < count_writes (trace t') \<and> accepted wr then j else j - 1)"
    by (auto simp add: write_step_def split: option.splits)
  from OnIOComplete_write_effect [of 0 "Failed 0" "ReadFileTrue 0" wr t] t'
  obtain front rest where Q: "dataToWrite t = front # rest"
    and q: "dataToWrite t' = rest"
    and w: "submitted (trace t') = submitted (trace t) @
           (case rest of [] \<Rightarrow> [] | d # ds \<Rightarrow> [take (unat (DWORD_of_size (length d))) d])"
    by (cases "dataToWrite t") auto
  from Q q s show "\<exists>front. dataToWrite t = front # dataToWrite s" by simp
  from w q s show "submitted (trace s) = submitted (trace t) @
           (case dataToWrite s of [] \<Rightarrow> [] | d # ds \<Rightarrow> [take (unat (DWORD_of_size (length d))) d])"
    by simp
  from k w q s show "k = (if dataToWrite s \<noteq> [] \<and> accepted wr then j else j - 1)"
    by (cases rest) (simp_all add: count_writes_submitted)
qed

lemma write_run_invariant:
  "write_run evs (Serial_new, 0) = Some (s, k) \<Longrightarrow>
   \<exists>done. enqueued evs = done @ dataToWrite s
     \<and> submitted (trace s) =
         map (\<lambda>d. take (unat (DWORD_of_size (length d))) d) (done @ take 1 (dataToWrite s))
     \<and> k \<le> 1 \<and> (k = 1 \<longrightarrow> dataToWrite s \<noteq> [])
     \<and> ((\<forall>e\<in>set evs. accepted (reply_of e)) \<longrightarrow> dataToWrite s \<noteq> [] \<longrightarrow> k = 1)"
proof (induction evs arbitrary: s k rule: rev_induct)
  case Nil
  then show ?case by (auto simp add: Serial_new_def)
next
  case (snoc ev evs)
  from snoc.prems obtain t j where run: "write_run evs (Serial_new, 0) = Some (t, j)"
    and step: "write_step ev (t, j) = Some (s, k)"
    by (auto simp add: write_run_snoc split: option.splits)
  from snoc.IH [OF run] obtain dn where
    enq: "enqueued evs = dn @ dataToWrite t" and
    sub: "submitted (trace t) =
            map (\<lambda>d. take (unat (DWORD_of_size (length d))) d) (dn @ take 1 (dataToWrite t))" and
    j1: "j \<le> 1" and jq: "j = 1 \<longrightarrow> dataToWrite t \<noteq> []" and
    acc: "(\<forall>e\<in>set evs. accepted (reply_of e)) \<longrightarrow> dataToWrite t \<noteq> [] \<longrightarrow> j = 1"
    by blast
  show ?case
  proof (cases ev)
    case (EvAsyncWrite d wr)
    note st = write_step_AsyncWrite [OF step [unfolded EvAsyncWrite]]
    show ?thesis
    proof (intro exI [of _ dn] conjI)
      show "enqueued (evs @ [ev]) = dn @ dataToWrite s"
        using enq st(1) EvAsyncWrite by (simp add: enqueued_snoc)
      show "submitted (trace s) =
              map (\<lambda>d. take (unat (DWORD_of_size (length d))) d) (dn @ take 1 (dataToWrite s))"
        using sub st(1,2) by (cases "dataToWrite t") simp_all
      show "k \<le> 1" using st(3) j1 jq by (auto split: if_splits)
      show "k = 1 \<longrightarrow> dataToWrite s \<noteq> []" using st(1) by simp
      show "(\<forall>e\<in>set (evs @ [ev]). accepted (reply_of e)) \<longrightarrow> dataToWrite s \<noteq> [] \<longrightarrow> k = 1"
        using st(3) acc j1 jq EvAsyncWrite by (auto simp add: reply_of_def split: if_splits)
    qed
  next
    case (EvWriteComplete wr)
    note st = write_step_WriteComplete [OF step [unfolded EvWriteComplete]]
    from st(2) obtain front where Q: "dataToWrite t = front # dataToWrite s" by blast
    from st(1) j1 have j: "j = 1" by simp
    show ?thesis
    proof (intro exI [of _ "dn @ [front]"] conjI)
      show "enqueued (evs @ [ev]) = (dn @ [front]) @ dataToWrite s"
        using enq Q EvWriteComplete by (simp add: enqueued_snoc)
      show "submitted (trace s) =
              map (\<lambda>d. take (unat (DWORD_of_size (length d))) d)
                  ((dn @ [front]) @ take 1 (dataToWrite s))"
        using sub st(3) Q by (cases "dataToWrite s") simp_all
      show "k \<le> 1" using st(4) j by (simp split: if_splits)
      show "k = 1 \<longrightarrow> dataToWrite s \<noteq> []" using st(4) j by (simp split: if_splits)
      show "(\<forall>e\<in>set (evs @ [ev]). accepted (reply_of e)) \<longrightarrow> dataToWrite s \<noteq> [] \<longrightarrow> k = 1"
        using st(4) j EvWriteComplete by (simp add: reply_of_def)
    qed
  qed
qed

lemma DWORD_size_short:
  "length d < 2 ^ 32 \<Longrightarrow> take (unat (DWORD_of_size (length d))) d = d"
  by (simp add: DWORD_of_size_def unat_of_nat)

text \<open>
  Claim C4, as amended. Take any run of \<open>AsyncWrite\<close> calls and write completions on a
  fresh endpoint, in which the system delivers a write completion only while a write is
  in flight, and in which every buffer is shorter than \<open>2^32\<close> bytes. Then at every point
  the buffers handed to \<open>WriteFile\<close> are, in order and unchanged, the enqueued buffers
  except those still waiting behind the head of the queue (so all of \<open>b1 \<cdot> \<dots> \<cdot> bn\<close>
  once at most the head is left); at most one write is in flight, and only while the queue
  is non-empty; and when the system accepts every write, one is in flight exactly while
  the queue is non-empty. In any state, \<open>AsyncWrite\<close> appends its buffer and calls
  \<open>WriteFile\<close> on it exactly when the queue was empty, and a write completion pops the head
  and calls \<open>WriteFile\<close> on the new head exactly when the queue is still non-empty; each
  \<open>WriteFile\<close> gets the first \<open>size mod 2^32\<close> bytes of its buffer.
\<close>

theorem write_queue_fifo:
  assumes "write_run evs (Serial_new, 0) = Some (s, k)"
      and "\<forall>d\<in>set (enqueued evs). length d < 2 ^ 32"
  shows "submitted (trace s) @ drop 1 (dataToWrite s) = enqueued evs
       \<and> k \<le> 1 \<and> (k = 1 \<longrightarrow> dataToWrite s \<noteq> [])
       \<and> ((\<forall>e\<in>set evs. accepted (reply_of e)) \<longrightarrow> k = (if dataToWrite s = [] then 0 else 1))
       \<and> map_option (\<lambda>t'. (dataToWrite t', submitted (trace t'))) (AsyncWrite d wr t) =
           Some (dataToWrite t @ [d],
                 submitted (trace t) @
                   (if dataToWrite t = [] then [take (unat (DWORD_of_size (length d))) d] else []))
       \<and> map_option (\<lambda>t'. (dataToWrite t', submitted (trace t')))
            (OnIOComplete n OverlappedWrite comm rr wr t) =
           (case dataToWrite t of
              [] \<Rightarrow> None
            | front # rest \<Rightarrow>
                Some (rest, submitted (trace t) @
                  (case rest of [] \<Rightarrow> [] | b # bs \<Rightarrow> [take (unat (DWORD_of_size (length b))) b])))"
proof -
  from write_run_invariant [OF assms(1)] obtain dn where
    enq: "enqueued evs = dn @ dataToWrite s" and
    sub: "submitted (trace s) =
            map (\<lambda>d. take (unat (DWORD_of_size (length d))) d) (dn @ take 1 (dataToWrite s))" and
    k1: "k \<le> 1" and kq: "k = 1 \<longrightarrow> dataToWrite s \<noteq> []" and
    acc: "(\<forall>e\<in>set evs. accepted (reply_of e)) \<longrightarrow> dataToWrite s \<noteq> [] \<longrightarrow> k = 1"
    by blast
  have "set (dn @ take 1 (dataToWrite s)) \<subseteq> set (enqueued evs)"
    using enq by (auto dest: in_set_takeD)
  with assms(2) have "\<forall>d\<in>set (dn @ take 1 (dataToWrite s)). length d < 2 ^ 32"
    by blast
  then have "map (\<lambda>d. take (unat (DWORD_of_size (length d))) d) (dn @ take 1 (dataToWrite s))
             = dn @ take 1 (dataToWrite s)"
    by (intro map_idI) (simp add: DWORD_size_short)
  with sub have "submitted (trace s) = dn @ take 1 (dataToWrite s)" by simp
  then have a: "submitted (trace s) @ drop 1 (dataToWrite s) = enqueued evs"
    using enq by simp
  have b: "(\<forall>e\<in>set evs. accepted (reply_of e)) \<longrightarrow> k = (if dataToWrite s = [] then 0 else 1)"
    using acc k1 kq by auto
  from a b k1 kq AsyncWrite_effect [of d wr t] OnIOComplete_write_effect [of n comm rr wr t]
  show ?thesis by blast
qed

theorem write_queue_fifo_witness:
  "write_run S6_run (Serial_new, 0) =
     Some (Serial_new\<lparr>trace := [CallWriteFile [0x41, 0x42], CallOnWriteComplete,
                                CallWriteFile [0x43, 0x44], CallOnWriteComplete]\<rparr>, 0)
   \<and> submitted [CallWriteFile [0x41, 0x42], CallOnWriteComplete,
                 CallWriteFile [0x43, 0x44], CallOnWriteComplete] = enqueued S6_run
   \<and> concat (enqueued S6_run) = [0x41, 0x42, 0x43, 0x44]"
proof -
  have r: "write_run S6_run (Serial_new, 0) =
     Some (Serial_new\<lparr>trace := [CallWriteFile [0x41, 0x42], CallOnWriteComplete,
                                CallWriteFile [0x43, 0x44], CallOnWriteComplete]\<rparr>, 0)"
    by (simp add: S6_run_def write_step_def AsyncWrite_def OnIOComplete_def WriteNextBuffer_def
        Serial_new_def DWORD_of_size_def count_writes_def accepted_def Let_def)
  have h: "\<forall>d\<in>set (enqueued S6_run). length d < 2 ^ 32"
    by (simp add: S6_run_def)
  from write_queue_fifo [OF r h] r show ?thesis
    by (simp add: S6_run_def)
qed

text \<open>
  The claim as stated fails for a buffer of \<open>2^32\<close> bytes: its size is cast to \<open>DWORD\<close>, so
  \<open>WriteFile\<close> is called with no bytes at all.
\<close>

theorem write_queue_truncation_counterexample:
  "write_run [EvAsyncWrite (replicate 4294967296 0) WriteFileTrue] (Serial_new, 0) =
     Some (Serial_new\<lparr>dataToWrite := [replicate 4294967296 0], trace := [CallWriteFile []]\<rparr>, 1)"
  by (simp add: write_step_def AsyncWrite_def WriteNextBuffer_def
      Serial_new_def DWORD_of_size_def count_writes_def accepted_def Let_def)

end
